theory Spec2Isabelle
  imports Complex_Main "HOL-Library.Sublist"
begin

section \<open>CCTNS Copilot: the query processing code of the TypeScript front end\<close>

text \<open>
  The development embeds the TypeScript functions that turn a model response into SQL
  (\<open>generateSqlAndSummary\<close>), answer SQL from the synthetic tables (\<open>executeQuery\<close>),
  call the backend (\<open>processQuery\<close>) and shape a result set into chart data
  (\<open>chartData\<close> of the \<open>DataTable\<close> component).

  Conventions. A JavaScript string is a \<open>string\<close>: a list of code units, here the code
  units below 256. A JavaScript number is a \<open>number\<close>: an exact rational, or one of
  \<open>NaN\<close>, \<open>Infinity\<close>, \<open>-Infinity\<close>; rounding of doubles is not modelled, since the code
  only passes numbers through and counts rows. A promise is the value it settles to:
  \<open>Inr\<close> when it is fulfilled, \<open>Inl\<close> with the error when it is rejected. Delays
  (\<open>setTimeout\<close>) are not modelled.
\<close>

subsection \<open>Values\<close>

datatype number = Finite rat | NaN | PosInfinity | NegInfinity

text \<open>A table cell has the TypeScript type \<open>string | number\<close>.\<close>

datatype cell = Str string | Num number

text \<open>\<open>QueryResult\<close> of \<open>types.ts\<close>.\<close>

record QueryResult =
  columns :: "string list"
  rows :: "cell list list"
  query :: string

text \<open>
  A value that \<open>JSON.parse\<close> returns. An object lists its own properties; every key
  occurs once.
\<close>

datatype json =
    JNull
  | JBool bool
  | JNumber number
  | JString string
  | JArray "json list"
  | JObject "(string \<times> json) list"

text \<open>
  Errors that are thrown, or that a promise is rejected with. \<open>Error m\<close> is
  \<open>new Error(m)\<close> for a text written in the source; \<open>ErrorOf v\<close> is \<open>new Error(v)\<close> for
  a value \<open>v\<close> taken from a payload (its message is \<open>String(v)\<close>); \<open>StatusError n\<close> is
  the error whose message is \<open>Server responded with status n\<close>. \<open>TypeError\<close> and
  \<open>SyntaxError\<close> are raised by the runtime, \<open>FetchFailed\<close> by a network call that does
  not complete.
\<close>

datatype error =
    Error string
  | ErrorOf json
  | StatusError nat
  | TypeError
  | SyntaxError
  | FetchFailed

text \<open>
  Reading a property \<open>v.k\<close> of a parsed value, for the names the code reads (\<open>sql\<close>,
  \<open>summary\<close>, \<open>error\<close>, \<open>detail\<close>; none of them is inherited from a prototype). On
  \<open>null\<close> the read throws a \<open>TypeError\<close>; on an object it gives the own property or
  \<open>undefined\<close> (\<open>None\<close>); on a string, number, boolean or array it gives \<open>undefined\<close>.
\<close>

fun get_prop :: "json \<Rightarrow> string \<Rightarrow> error + json option" where
  "get_prop JNull k = Inl TypeError"
| "get_prop (JObject ps) k = Inr (map_of ps k)"
| "get_prop (JBool b) k = Inr None"
| "get_prop (JNumber n) k = Inr None"
| "get_prop (JString s) k = Inr None"
| "get_prop (JArray vs) k = Inr None"

text \<open>
  Truthiness, as \<open>&&\<close>, \<open>||\<close> and \<open>if\<close> test it: \<open>undefined\<close>, \<open>null\<close>, \<open>false\<close>, zero,
  \<open>NaN\<close> and the empty string are falsy.
\<close>

fun truthy :: "json option \<Rightarrow> bool" where
  "truthy None = False"
| "truthy (Some JNull) = False"
| "truthy (Some (JBool b)) = b"
| "truthy (Some (JNumber n)) = (n \<noteq> Finite 0 \<and> n \<noteq> NaN)"
| "truthy (Some (JString s)) = (s \<noteq> [])"
| "truthy (Some (JArray vs)) = True"
| "truthy (Some (JObject ps)) = True"


subsection \<open>String operations of the JavaScript runtime\<close>

text \<open>
  \<open>String.prototype.toLowerCase\<close> on code units below 256: the letters A to Z and the
  Latin-1 capitals (192 to 222 except the multiplication sign 215) move up by 32.
\<close>

definition toLowerCase_char :: "char \<Rightarrow> char" where
  "toLowerCase_char c = (let n = (of_char c :: nat) in
     if (65 \<le> n \<and> n \<le> 90) \<or> (192 \<le> n \<and> n \<le> 222 \<and> n \<noteq> 215)
     then char_of (n + 32) else c)"

definition toLowerCase :: "string \<Rightarrow> string" where
  "toLowerCase s = map toLowerCase_char s"

text \<open>\<open>s.includes(t)\<close>: \<open>t\<close> occurs in \<open>s\<close> as a contiguous run.\<close>

fun includes_str :: "string \<Rightarrow> string \<Rightarrow> bool" where
  "includes_str [] t = (t = [])"
| "includes_str (c # cs) t = (prefix t (c # cs) \<or> includes_str cs t)"

text \<open>
  White space as \<open>trim\<close> and the class \<open>\s\<close> see it (tab, line feed, vertical tab, form
  feed, carriage return, space, no-break space), and the class \<open>\w\<close> (letters, digits,
  underscore).
\<close>

definition is_space :: "char \<Rightarrow> bool" where
  "is_space c = ((of_char c :: nat) \<in> {9, 10, 11, 12, 13, 32, 160})"

definition is_word :: "char \<Rightarrow> bool" where
  "is_word c = (let n = (of_char c :: nat) in
     (65 \<le> n \<and> n \<le> 90) \<or> (97 \<le> n \<and> n \<le> 122) \<or> (48 \<le> n \<and> n \<le> 57) \<or> n = 95)"

definition dropWhileEnd :: "('a \<Rightarrow> bool) \<Rightarrow> 'a list \<Rightarrow> 'a list" where
  "dropWhileEnd p xs = rev (dropWhile p (rev xs))"

definition trim :: "string \<Rightarrow> string" where
  "trim s = dropWhileEnd is_space (dropWhile is_space s)"

definition newline :: char where
  "newline = CHR 0x0A"

definition backslash :: char where
  "backslash = CHR 0x5C"

subsection \<open>The mock database service: \<open>executeQuery\<close>\<close>

text \<open>
  The three synthetic tables. The field \<open>count\<close> of \<open>MOCK_FIR_TREND\<close> is named
  \<open>fir_count\<close> here, since a field name can be declared once.
\<close>

record crime_row =
  crime_type :: string
  district :: string
  count :: number

record arrest_row =
  officer_name :: string
  arrest_date :: string
  fir_description :: string

record trend_row =
  month :: string
  station :: string
  fir_count :: number

definition MOCK_CRIME_DATA :: "crime_row list" where
  "MOCK_CRIME_DATA =
    [\<lparr>crime_type = ''Theft'', district = ''Guntur'', count = Finite 120\<rparr>,
     \<lparr>crime_type = ''Assault'', district = ''Guntur'', count = Finite 45\<rparr>,
     \<lparr>crime_type = ''Burglary'', district = ''Guntur'', count = Finite 78\<rparr>,
     \<lparr>crime_type = ''Robbery'', district = ''Guntur'', count = Finite 30\<rparr>,
     \<lparr>crime_type = ''Theft'', district = ''Visakhapatnam'', count = Finite 150\<rparr>,
     \<lparr>crime_type = ''Assault'', district = ''Visakhapatnam'', count = Finite 60\<rparr>]"

definition MOCK_ARREST_DATA :: "arrest_row list" where
  "MOCK_ARREST_DATA =
    [\<lparr>officer_name = ''S. Kumar'', arrest_date = ''2025-05-15'',
      fir_description = ''Theft of motorcycle''\<rparr>,
     \<lparr>officer_name = ''S. Kumar'', arrest_date = ''2025-05-22'',
      fir_description = ''Shop burglary on Main St.''\<rparr>,
     \<lparr>officer_name = ''A. Reddy'', arrest_date = ''2025-06-01'',
      fir_description = ''Assault case at market''\<rparr>,
     \<lparr>officer_name = ''S. Kumar'', arrest_date = ''2025-06-10'',
      fir_description = ''Chain snatching incident''\<rparr>]"

definition MOCK_FIR_TREND :: "trend_row list" where
  "MOCK_FIR_TREND =
    [\<lparr>month = ''2024-07'', station = ''Guntur I Town'', fir_count = Finite 55\<rparr>,
     \<lparr>month = ''2024-08'', station = ''Guntur I Town'', fir_count = Finite 62\<rparr>,
     \<lparr>month = ''2024-09'', station = ''Guntur I Town'', fir_count = Finite 48\<rparr>,
     \<lparr>month = ''2024-10'', station = ''Guntur I Town'', fir_count = Finite 70\<rparr>,
     \<lparr>month = ''2024-11'', station = ''Guntur I Town'', fir_count = Finite 65\<rparr>,
     \<lparr>month = ''2024-12'', station = ''Guntur I Town'', fir_count = Finite 75\<rparr>,
     \<lparr>month = ''2025-01'', station = ''Guntur I Town'', fir_count = Finite 80\<rparr>,
     \<lparr>month = ''2025-02'', station = ''Guntur I Town'', fir_count = Finite 72\<rparr>,
     \<lparr>month = ''2025-03'', station = ''Guntur I Town'', fir_count = Finite 85\<rparr>,
     \<lparr>month = ''2025-04'', station = ''Guntur I Town'', fir_count = Finite 90\<rparr>,
     \<lparr>month = ''2025-05'', station = ''Guntur I Town'', fir_count = Finite 88\<rparr>,
     \<lparr>month = ''2025-06'', station = ''Guntur I Town'', fir_count = Finite 95\<rparr>]"

text \<open>
  \<open>executeQuery\<close> looks for fixed words in the lower-cased SQL and resolves with one of
  four result sets. The promise is created with a \<open>reject\<close> callback that the body never
  calls, so every branch is \<open>Inr\<close>.
\<close>

definition executeQuery :: "string \<Rightarrow> error + QueryResult" where
  "executeQuery sql =
    (let lowerSql = toLowerCase sql in
     if includes_str lowerSql ''group by'' \<and> includes_str lowerSql ''guntur'' then
       Inr \<lparr>columns = [''Crime Type'', ''Total FIRs''],
            rows = map (\<lambda>d. [Str (crime_type d), Num (count d)])
                     (filter (\<lambda>d. district d = ''Guntur'') MOCK_CRIME_DATA),
            query = sql\<rparr>
     else if includes_str lowerSql ''officer_master'' \<and> includes_str lowerSql ''kumar'' then
       Inr \<lparr>columns = [''Arresting Officer'', ''Arrest Date'', ''FIR Details''],
            rows = map (\<lambda>d. [Str (officer_name d), Str (arrest_date d), Str (fir_description d)])
                     (filter (\<lambda>d. includes_str (officer_name d) ''Kumar'') MOCK_ARREST_DATA),
            query = sql\<rparr>
     else if includes_str lowerSql ''fir'' \<and> includes_str lowerSql ''group by''
             \<and> includes_str lowerSql ''month'' then
       Inr \<lparr>columns = [''Month'', ''FIR Count''],
            rows = map (\<lambda>d. [Str (month d), Num (fir_count d)]) MOCK_FIR_TREND,
            query = sql\<rparr>
     else
       Inr \<lparr>columns = [''Crime Type'', ''District'', ''Total Count''],
            rows = map (\<lambda>d. [Str (crime_type d), Str (district d), Num (count d)])
                     MOCK_CRIME_DATA,
            query = sql\<rparr>)"

subsection \<open>The backend client: \<open>processQuery\<close>\<close>

text \<open>
  What \<open>fetch\<close> resolves with, as far as \<open>processQuery\<close> reads it: the \<open>ok\<close> flag, the
  status code, and what \<open>response.json()\<close> settles to (\<open>None\<close> when the body is not
  valid JSON and the call rejects with a \<open>SyntaxError\<close>).
\<close>

record response =
  ok :: bool
  status :: nat
  json_body :: "json option"

text \<open>
  The network is a parameter: \<open>fetch query_text\<close> is the outcome of the POST request
  that carries the query, \<open>Inl\<close> when the request itself fails.
\<close>

definition processQuery :: "(string \<Rightarrow> error + response) \<Rightarrow> string \<Rightarrow> error + json" where
  "processQuery fetch query_text =
    (case fetch query_text of
       Inl e \<Rightarrow> Inl e
     | Inr response \<Rightarrow>
         if \<not> ok response then
           (let errorData =
              (case json_body response of
                 None \<Rightarrow> JObject [(''detail'', JString ''Failed to fetch from backend.'')]
               | Some j \<Rightarrow> j)
            in case get_prop errorData ''detail'' of
                 Inl e \<Rightarrow> Inl e
               | Inr None \<Rightarrow> Inl (StatusError (status response))
               | Inr (Some detail) \<Rightarrow>
                   if truthy (Some detail) then Inl (ErrorOf detail)
                   else Inl (StatusError (status response)))
         else
           (case json_body response of
              None \<Rightarrow> Inl SyntaxError
            | Some data \<Rightarrow>
                (case get_prop data ''error'' of
                   Inl e \<Rightarrow> Inl e
                 | Inr None \<Rightarrow> Inr data
                 | Inr (Some err) \<Rightarrow>
                     if truthy (Some err) then Inl (ErrorOf err) else Inr data)))"

text \<open>A backend that answers every query with the same response (for examples).\<close>

definition respond_with :: "response \<Rightarrow> string \<Rightarrow> error + response" where
  "respond_with r q = Inr r"

subsection \<open>The SQL generator: \<open>generateSqlAndSummary\<close>\<close>

definition SQL_GENERATION_PROMPT :: string where
  \<open>SQL_GENERATION_PROMPT = newline # concat (map (\<lambda>l. l @ [newline])
    [''Based on the provided CCTNS schema and the user's query, generate a valid SQL query and a brief, user-friendly summary of what the query does.'',
     ''Your response MUST be a JSON object with two keys: "sql" and "summary".'',
     ''The "sql" key must contain ONLY the SQL statement as a string.'',
     ''The "summary" key must contain a short, one-sentence description in plain English explaining what data is being retrieved.'',
     [],
     ''Example user query: "Show total crimes and breakdown by type for District = Guntur."'',
     ''Example JSON response:'',
     ''{'',
     ''  "sql": "SELECT ct.description, COUNT(f.fir_id) FROM FIR f JOIN CRIME_TYPE_MASTER ct ON f.crime_type_id = ct.crime_type_id JOIN DISTRICT_MASTER d ON f.district_id = d.district_id WHERE d.district_name = 'Guntur' GROUP BY ct.description",'',
     ''  "summary": "This query retrieves the total count of crimes, broken down by crime type, for the Guntur district."'',
     ''}'',
     [],
     ''Do not add any other text, explanations, or formatting outside of the JSON object.''])\<close>

definition user_prompt :: "string \<Rightarrow> string" where
  \<open>user_prompt query_text =
     SQL_GENERATION_PROMPT @ [newline, newline] @ ''User Query: "'' @ query_text @ ''"''\<close>

definition fence :: string where
  "fence = ''```''"

text \<open>
  The match of \<open>/^```(\w*)?\s*\n?(.*?)\n?\s*```$/s\<close> against a whole string: \<open>None\<close> when
  there is no match, else the two groups. The string has to start and end with three
  backticks that do not overlap. Between them the greedy \<open>\w*\<close> takes the longest run of
  word characters and the greedy \<open>\s*\<close> the longest run of white space after it, which
  leaves nothing for the first \<open>\n?\<close>; the lazy group then takes the shortest text that
  leaves only white space before the closing backticks, that is the rest without its
  trailing white space. This first choice always succeeds, so the matcher never backtracks
  into a shorter run.
\<close>

definition fence_match :: "string \<Rightarrow> (string \<times> string) option" where
  "fence_match s =
    (if 6 \<le> length s \<and> take 3 s = fence \<and> drop (length s - 3) s = fence then
       (let body = take (length s - 6) (drop 3 s);
            rest = dropWhile is_space (dropWhile is_word body)
        in Some (takeWhile is_word body, dropWhileEnd is_space rest))
     else None)"

text \<open>
  The text handed to \<open>JSON.parse\<close>: the trimmed response, or the trimmed second group
  when the fence pattern matches and that group is not empty.
\<close>

definition strip_fence :: "string \<Rightarrow> string" where
  "strip_fence text =
    (let jsonStr = trim text in
     case fence_match jsonStr of
       None \<Rightarrow> jsonStr
     | Some (tag, inner) \<Rightarrow> if inner \<noteq> [] then trim inner else jsonStr)"

text \<open>
  \<open>s.replace(/\\n/g, '\n')\<close>: every backslash followed by the letter n becomes a line
  feed.
\<close>

fun unescape_newlines :: "string \<Rightarrow> string" where
  "unescape_newlines (a # b # cs) =
     (if a = backslash \<and> b = CHR ''n'' then newline # unescape_newlines cs
      else a # unescape_newlines (b # cs))"
| "unescape_newlines cs = cs"

record generated =
  sql :: string
  summary :: json

definition invalid_response :: error where
  "invalid_response =
     Error ''The AI returned an invalid response. Please try rephrasing your query.''"

text \<open>
  The \<open>try\<close> block. \<open>JSON.parse\<close> is a parameter (\<open>None\<close> when it throws). Whatever is
  thrown inside the block (the \<open>SyntaxError\<close> of the parser, the \<open>TypeError\<close> of reading a
  property of \<open>null\<close> or of calling \<open>replace\<close> on a value that is not a string, the
  error for missing fields) is caught and replaced by the same error.
\<close>

definition parse_payload :: "(string \<Rightarrow> json option) \<Rightarrow> string \<Rightarrow> error + generated" where
  "parse_payload JSON_parse jsonStr =
    (case JSON_parse jsonStr of
       None \<Rightarrow> Inl invalid_response
     | Some parsedData \<Rightarrow>
         (case get_prop parsedData ''sql'' of
            Inl e \<Rightarrow> Inl invalid_response
          | Inr s \<Rightarrow>
              (case get_prop parsedData ''summary'' of
                 Inl e \<Rightarrow> Inl invalid_response
               | Inr m \<Rightarrow>
                   if truthy s \<and> truthy m then
                     (case (s, m) of
                        (Some (JString text), Some m') \<Rightarrow>
                          Inr \<lparr>sql = unescape_newlines text, summary = m'\<rparr>
                      | _ \<Rightarrow> Inl invalid_response)
                   else Inl invalid_response)))"

text \<open>
  The chat session is a parameter: \<open>sendMessage chat prompt\<close> gives the text of the
  response (or the error with which the call, or the reading of \<open>response.text\<close>, fails)
  and the session after the call. The function returns its own outcome and the session
  it leaves behind.
\<close>

definition generateSqlAndSummary ::
  "(string \<Rightarrow> json option) \<Rightarrow> ('c \<Rightarrow> string \<Rightarrow> (error + string) \<times> 'c) \<Rightarrow> 'c \<Rightarrow> string
     \<Rightarrow> (error + generated) \<times> 'c" where
  "generateSqlAndSummary JSON_parse sendMessage chat query_text =
    (case sendMessage chat (user_prompt query_text) of
       (Inl e, chat') \<Rightarrow> (Inl e, chat')
     | (Inr text, chat') \<Rightarrow> (parse_payload JSON_parse (strip_fence text), chat'))"

text \<open>
  Stand-ins for examples: a session that answers from a script, one entry for each call,
  and a parser that knows the payloads of the examples and rejects every other text.
\<close>

fun scripted :: "(error + string) list \<Rightarrow> string \<Rightarrow> (error + string) \<times> (error + string) list" where
  "scripted [] prompt = (Inl FetchFailed, [])"
| "scripted (r # rs) prompt = (r, rs)"

definition payload_one :: string where
  \<open>payload_one = ''{"sql": "SELECT 1", "summary": "One row"}''\<close>

definition payload_two :: string where
  \<open>payload_two = ''{"sql": "SELECT f.fir_id'' @ [backslash, backslash, CHR ''n'']
     @ ''FROM FIR f", "summary": "All FIR ids"}''\<close>

definition payload_no_sql :: string where
  \<open>payload_no_sql = ''{"summary": "One row"}''\<close>

definition example_parse :: "string \<Rightarrow> json option" where
  "example_parse s =
    (if s = payload_one then
       Some (JObject [(''sql'', JString ''SELECT 1''), (''summary'', JString ''One row'')])
     else if s = payload_two then
       Some (JObject [(''sql'', JString (''SELECT f.fir_id'' @ [backslash, CHR ''n''] @ ''FROM FIR f'')),
                      (''summary'', JString ''All FIR ids'')])
     else if s = payload_no_sql then
       Some (JObject [(''summary'', JString ''One row'')])
     else if s = ''null'' then Some JNull
     else None)"

subsection \<open>The result shaper: \<open>chartData\<close> of the \<open>DataTable\<close> component\<close>

text \<open>
  What the runtime supplies and the repository does not define: \<open>String(n)\<close> and
  \<open>Number(s)\<close> for a number \<open>n\<close> and a string \<open>s\<close>, \<open>a.localeCompare(b)\<close> in the default
  locale, and the text \<open>String(v)\<close> of the value \<open>v\<close> that an empty object inherits under
  a name of \<open>Object.prototype\<close>.
\<close>

record runtime =
  number_to_string :: "number \<Rightarrow> string"
  string_to_number :: "string \<Rightarrow> number"
  localeCompare :: "string \<Rightarrow> string \<Rightarrow> int"
  inherited_text :: "string \<Rightarrow> string"

text \<open>One point of the chart: \<open>{ name, value }\<close>; the field \<open>value\<close> is \<open>val\<close> here.\<close>

record chart_point =
  name :: string
  val :: cell

fun is_number :: "cell \<Rightarrow> bool" where
  "is_number (Num n) = True"
| "is_number (Str s) = False"

fun is_string :: "cell \<Rightarrow> bool" where
  "is_string (Str s) = True"
| "is_string (Num n) = False"

text \<open>\<open>row[i]\<close>: \<open>None\<close> is \<open>undefined\<close>, what an index past the end reads.\<close>

definition at_index :: "'a list \<Rightarrow> nat \<Rightarrow> 'a option" where
  "at_index xs i = (if i < length xs then Some (xs ! i) else None)"

text \<open>\<open>String(v)\<close> and \<open>Number(v)\<close> for what \<open>row[i]\<close> reads.\<close>

fun String_js :: "runtime \<Rightarrow> cell option \<Rightarrow> string" where
  "String_js rt None = ''undefined''"
| "String_js rt (Some (Str s)) = s"
| "String_js rt (Some (Num n)) = number_to_string rt n"

fun Number_js :: "runtime \<Rightarrow> cell option \<Rightarrow> number" where
  "Number_js rt None = NaN"
| "Number_js rt (Some (Num n)) = n"
| "Number_js rt (Some (Str s)) = string_to_number rt s"

text \<open>
  \<open>xs.findIndex((x, index) => p)\<close>: the first index whose element satisfies the callback,
  \<open>None\<close> for the \<open>-1\<close> of no match.
\<close>

fun findIndex_from :: "nat \<Rightarrow> ('a \<Rightarrow> nat \<Rightarrow> bool) \<Rightarrow> 'a list \<Rightarrow> nat option" where
  "findIndex_from i p [] = None"
| "findIndex_from i p (x # xs) = (if p x i then Some i else findIndex_from (Suc i) p xs)"

definition findIndex :: "('a \<Rightarrow> nat \<Rightarrow> bool) \<Rightarrow> 'a list \<Rightarrow> nat option" where
  "findIndex p xs = findIndex_from 0 p xs"

text \<open>\<open>/^\d{4}-\d{2}-\d{2}$/.test(s)\<close>: ten characters, digits around two hyphens.\<close>

definition is_digit :: "char \<Rightarrow> bool" where
  "is_digit c = (48 \<le> (of_char c :: nat) \<and> (of_char c :: nat) \<le> 57)"

definition dateRegex_test :: "string \<Rightarrow> bool" where
  "dateRegex_test s =
    (case s of
       [y1, y2, y3, y4, h1, m1, m2, h2, d1, d2] \<Rightarrow>
         is_digit y1 \<and> is_digit y2 \<and> is_digit y3 \<and> is_digit y4 \<and> h1 = CHR ''-''
         \<and> is_digit m1 \<and> is_digit m2 \<and> h2 = CHR ''-'' \<and> is_digit d1 \<and> is_digit d2
     | _ \<Rightarrow> False)"

fun is_date_string :: "cell \<Rightarrow> bool" where
  "is_date_string (Str s) = dateRegex_test s"
| "is_date_string (Num n) = False"

text \<open>
  The label column of the first strategy: the first string column other than the value
  column; without one, the first column other than the value column; without one, column 0.
\<close>

definition stringColumnIndex :: "cell list \<Rightarrow> nat \<Rightarrow> nat" where
  "stringColumnIndex firstRow numericColumnIndex =
    (case findIndex (\<lambda>cell index. is_string cell \<and> index \<noteq> numericColumnIndex) firstRow of
       Some i \<Rightarrow> i
     | None \<Rightarrow>
         (case findIndex (\<lambda>cell index. index \<noteq> numericColumnIndex) firstRow of
            Some i \<Rightarrow> i
          | None \<Rightarrow> 0))"

text \<open>
  The accumulator of \<open>reduce\<close> is an object created as \<open>{}\<close>: its own properties, in the
  order of their creation, and behind them the properties of \<open>Object.prototype\<close>.
\<close>

type_synonym js_object = "(string \<times> cell) list"

definition Object_prototype_names :: "string list" where
  "Object_prototype_names =
    [''constructor'', ''__defineGetter__'', ''__defineSetter__'', ''hasOwnProperty'',
     ''__lookupGetter__'', ''__lookupSetter__'', ''isPrototypeOf'', ''propertyIsEnumerable'',
     ''toString'', ''valueOf'', ''__proto__'', ''toLocaleString'']"

fun plus_one :: "number \<Rightarrow> number" where
  "plus_one (Finite q) = Finite (q + 1)"
| "plus_one NaN = NaN"
| "plus_one PosInfinity = PosInfinity"
| "plus_one NegInfinity = NegInfinity"

text \<open>
  The value of \<open>(acc[k] || 0) + 1\<close>. An own number or string is used when it is truthy. A
  name inherited from \<open>Object.prototype\<close> reads a function (or, for \<open>__proto__\<close>, the
  prototype itself), which is truthy, and \<open>+\<close> then appends \<open>1\<close> to its text.
\<close>

definition incremented :: "runtime \<Rightarrow> js_object \<Rightarrow> string \<Rightarrow> cell" where
  "incremented rt acc k =
    (case map_of acc k of
       Some (Num n) \<Rightarrow> if n \<noteq> Finite 0 \<and> n \<noteq> NaN then Num (plus_one n) else Num (Finite 1)
     | Some (Str s) \<Rightarrow> if s \<noteq> [] then Str (s @ ''1'') else Num (Finite 1)
     | None \<Rightarrow>
         if k \<in> set Object_prototype_names then Str (inherited_text rt k @ ''1'')
         else Num (Finite 1))"

text \<open>
  The assignment \<open>acc[k] = v\<close>: an own property keeps its place, a new one goes to the end.
  Under the name \<open>__proto__\<close> the assignment runs the setter of \<open>Object.prototype\<close>, which
  ignores a value that is not an object, so nothing changes.
\<close>

fun set_property :: "js_object \<Rightarrow> string \<Rightarrow> cell \<Rightarrow> js_object" where
  "set_property [] k v = [(k, v)]"
| "set_property ((k', v') # ps) k v =
     (if k' = k then (k, v) # ps else (k', v') # set_property ps k v)"

definition bump :: "runtime \<Rightarrow> js_object \<Rightarrow> string \<Rightarrow> js_object" where
  "bump rt acc k =
    (if k = ''__proto__'' then acc else set_property acc k (incremented rt acc k))"

text \<open>
  \<open>Object.entries\<close> and \<open>Object.keys\<close> list the keys that are array indices first (a
  decimal numeral without a leading zero, at most \<open>2^32 - 2\<close>), in ascending order, then the
  other keys in the order of their creation.
\<close>

definition decimal :: "string \<Rightarrow> int" where
  "decimal s = foldl (\<lambda>n c. 10 * n + ((of_char c :: int) - 48)) 0 s"

definition array_index :: "string \<Rightarrow> int option" where
  "array_index k =
    (if k \<noteq> [] \<and> list_all is_digit k \<and> (k = ''0'' \<or> hd k \<noteq> CHR ''0'')
        \<and> decimal k \<le> 4294967294
     then Some (decimal k) else None)"

definition Object_entries :: "js_object \<Rightarrow> (string \<times> cell) list" where
  "Object_entries obj =
     sort_key (\<lambda>p. the (array_index (fst p))) (filter (\<lambda>p. array_index (fst p) \<noteq> None) obj)
     @ filter (\<lambda>p. array_index (fst p) = None) obj"

definition Object_keys :: "js_object \<Rightarrow> string list" where
  "Object_keys obj = map fst (Object_entries obj)"

text \<open>
  \<open>xs.sort(compare)\<close>: a stable sort. For a comparator that orders its arguments
  consistently the result is the one of this insertion sort; for any other comparator the
  order that \<open>sort\<close> produces is left open by the language.
\<close>

fun insert_by :: "('a \<Rightarrow> 'a \<Rightarrow> int) \<Rightarrow> 'a \<Rightarrow> 'a list \<Rightarrow> 'a list" where
  "insert_by compare x [] = [x]"
| "insert_by compare x (y # ys) =
     (if compare x y \<le> 0 then x # y # ys else y # insert_by compare x ys)"

definition js_sort :: "('a \<Rightarrow> 'a \<Rightarrow> int) \<Rightarrow> 'a list \<Rightarrow> 'a list" where
  "js_sort compare xs = foldr (insert_by compare) xs []"

text \<open>
  The \<open>reduce\<close> of the second strategy. \<open>dateStr.substring(0, 7)\<close> throws a \<open>TypeError\<close>
  when the cell is a number or the row has no such cell.
\<close>

fun aggregate_months :: "runtime \<Rightarrow> nat \<Rightarrow> js_object \<Rightarrow> cell list list \<Rightarrow> error + js_object" where
  "aggregate_months rt dateColumnIndex acc [] = Inr acc"
| "aggregate_months rt dateColumnIndex acc (row # rest) =
     (case at_index row dateColumnIndex of
        Some (Str dateStr) \<Rightarrow>
          aggregate_months rt dateColumnIndex (bump rt acc (take 7 dateStr)) rest
      | Some (Num n) \<Rightarrow> Inl TypeError
      | None \<Rightarrow> Inl TypeError)"

text \<open>
  The key under which the second strategy counts a row: the first seven characters of
  its cell in the date column.
\<close>

definition month_key :: "nat \<Rightarrow> cell list \<Rightarrow> string" where
  "month_key dateColumnIndex row =
     (case at_index row dateColumnIndex of Some (Str dateStr) \<Rightarrow> take 7 dateStr | _ \<Rightarrow> [])"

text \<open>The \<open>reduce\<close> of the third strategy, on \<open>String(row[labelColumnIndex])\<close>.\<close>

definition aggregate_labels :: "runtime \<Rightarrow> nat \<Rightarrow> cell list list \<Rightarrow> js_object" where
  "aggregate_labels rt labelColumnIndex rs =
     foldl (\<lambda>acc row. bump rt acc (String_js rt (at_index row labelColumnIndex))) [] rs"

definition to_points :: "(string \<times> cell) list \<Rightarrow> chart_point list" where
  "to_points entries = map (\<lambda>(k, v). \<lparr>name = k, val = v\<rparr>) entries"

definition chartData :: "runtime \<Rightarrow> QueryResult \<Rightarrow> error + chart_point list" where
  "chartData rt data =
    (case rows data of
       [] \<Rightarrow> Inr []
     | firstRow # others \<Rightarrow>
         (case findIndex (\<lambda>cell index. is_number cell) firstRow of
            Some numericColumnIndex \<Rightarrow>
              Inr (map (\<lambda>row.
                     \<lparr>name = String_js rt
                        (at_index row (stringColumnIndex firstRow numericColumnIndex)),
                      val = Num (Number_js rt (at_index row numericColumnIndex))\<rparr>)
                   (rows data))
          | None \<Rightarrow>
              (case findIndex (\<lambda>cell index. is_date_string cell) firstRow of
                 Some dateColumnIndex \<Rightarrow>
                   (case aggregate_months rt dateColumnIndex [] (rows data) of
                      Inl e \<Rightarrow> Inl e
                    | Inr aggregation \<Rightarrow>
                        Inr (js_sort (\<lambda>a b. localeCompare rt (name a) (name b))
                               (to_points (Object_entries aggregation))))
               | None \<Rightarrow>
                   (case findIndex (\<lambda>cell index. is_string cell) firstRow of
                      Some labelColumnIndex \<Rightarrow>
                        (let aggregation = aggregate_labels rt labelColumnIndex (rows data) in
                         if 1 < length (Object_keys aggregation)
                         then Inr (to_points (Object_entries aggregation))
                         else Inr [])
                    | None \<Rightarrow> Inr []))))"

text \<open>
  A runtime for examples. It agrees with the JavaScript runtime on the values the
  examples use, and where it does not agree it gives a placeholder, as follows.
  \<^item> \<open>String\<close> of a natural number up to \<open>2^53 - 1\<close> is its decimal numeral, and \<open>NaN\<close> and
    the infinities print under their names. For every other number the example runtime
    prints a question mark, which is a placeholder.
  \<^item> \<open>Number\<close> of a string looks at the trimmed string: the empty string reads as 0, a
    string of at most fifteen digits as that natural number, \<open>Infinity\<close> with an optional
    sign as the infinity, and a string without any digit as \<open>NaN\<close>. For any other string
    (a digit together with other characters, or more than fifteen digits) the \<open>NaN\<close> of the
    example runtime is a placeholder.
  \<^item> Strings compare by code units, which is how \<open>localeCompare\<close> orders strings of digits
    and hyphens of the same shape, such as \<open>2025-05\<close> and \<open>2025-06\<close>.
  \<^item> An inherited function prints as V8 prints a native function; \<open>constructor\<close> is the
    function \<open>Object\<close>, and \<open>__proto__\<close> is the prototype object itself.
\<close>

fun show_nat :: "nat \<Rightarrow> string" where
  "show_nat n = (if n < 10 then [char_of (48 + n)] else show_nat (n div 10) @ [char_of (48 + n mod 10)])"

fun example_number_to_string :: "number \<Rightarrow> string" where
  "example_number_to_string (Finite q) =
     (if 0 \<le> q \<and> q = of_int \<lfloor>q\<rfloor> \<and> q \<le> 9007199254740991 then show_nat (nat \<lfloor>q\<rfloor>) else ''?'')"
| "example_number_to_string NaN = ''NaN''"
| "example_number_to_string PosInfinity = ''Infinity''"
| "example_number_to_string NegInfinity = ''-Infinity''"

definition example_string_to_number :: "string \<Rightarrow> number" where
  "example_string_to_number s =
     (let t = trim s in
      if t = [] then Finite 0
      else if list_all is_digit t \<and> length t \<le> 15 then Finite (of_int (decimal t))
      else if t = ''Infinity'' \<or> t = ''+Infinity'' then PosInfinity
      else if t = ''-Infinity'' then NegInfinity
      else NaN)"

fun compare_code_units :: "string \<Rightarrow> string \<Rightarrow> int" where
  "compare_code_units [] [] = 0"
| "compare_code_units [] (y # ys) = - 1"
| "compare_code_units (x # xs) [] = 1"
| "compare_code_units (x # xs) (y # ys) =
     (if (of_char x :: nat) < of_char y then - 1
      else if (of_char y :: nat) < of_char x then 1
      else compare_code_units xs ys)"

definition example_inherited_text :: "string \<Rightarrow> string" where
  "example_inherited_text k =
     (if k = ''__proto__'' then ''[object Object]''
      else if k = ''constructor'' then ''function Object() { [native code] }''
      else ''function '' @ k @ ''() { [native code] }'')"

definition example_runtime :: runtime where
  "example_runtime =
     \<lparr>number_to_string = example_number_to_string,
      string_to_number = example_string_to_number,
      localeCompare = compare_code_units,
      inherited_text = example_inherited_text\<rparr>"

text \<open>
  An aggregation object that holds exactly the counts of the keys seen so far (used to
  state what the \<open>reduce\<close> computes).
\<close>

definition counts_of :: "js_object \<Rightarrow> string list \<Rightarrow> bool" where
  "counts_of acc seen \<longleftrightarrow>
     distinct (map fst acc) \<and> set (map fst acc) = set seen \<and>
     (\<forall>k\<in>set seen. map_of acc k = Some (Num (Finite (of_nat (count_list seen k)))))"

subsection \<open>Components the sources do not contain\<close>

text \<open>
  The sources hold no SQL validator: the README places validation in the Python backend,
  which is not part of them, and \<open>executeQuery\<close> above answers every text from fixed
  tables. The definitions of this subsection follow the words of the spec instead.
\<close>

text \<open>
  Modelled from the spec: the outcome of parsing a candidate SQL text, which the missing
  \<open>SqlSafetyValidator\<close> needs (spec section 4.4, conditions (a) and (b)). The spec fixes
  no SQL grammar, so the parser is a parameter of the validator: \<open>sql_parse s\<close> is \<open>None\<close>
  when \<open>s\<close> does not parse, else the kinds of the statements of \<open>s\<close>.
\<close>

datatype statement_kind = SELECT_statement | other_statement

text \<open>
  Modelled from the spec: the states of the missing \<open>SqlSafetyValidator\<close>, a state machine
  with a single transition from \<open>RECEIVED\<close> to \<open>ACCEPTED\<close> or \<open>REJECTED\<close> (spec section 4.4).
\<close>

datatype validator_state = RECEIVED | ACCEPTED | REJECTED string

text \<open>
  Modelled from the spec: the \<open>SafetyVerdict\<close> of the missing validator, the allowed flag
  and the reason of the violation, if any (spec section 3).
\<close>

record SafetyVerdict =
  allowed :: bool
  violation :: "string option"

text \<open>
  Modelled from the spec: the mutating and DDL keywords that the missing validator
  looks for (spec section 4.4, condition (c)).
\<close>

definition mutating_keywords :: "string list" where
  "mutating_keywords =
    [''INSERT'', ''UPDATE'', ''DELETE'', ''DROP'', ''ALTER'', ''TRUNCATE'', ''CREATE'',
     ''GRANT'', ''REVOKE'']"

text \<open>
  Modelled from the spec: condition (c) of the missing validator, a match of a keyword
  anywhere in the text, whatever the case of the letters.
\<close>

definition has_mutating_keyword :: "string \<Rightarrow> bool" where
  "has_mutating_keyword s =
     list_ex (\<lambda>kw. includes_str (toLowerCase s) (toLowerCase kw)) mutating_keywords"

text \<open>
  Modelled from the spec: condition (d) of the missing validator, no semicolon except a
  single optional trailing terminator: after the first semicolon only white space
  follows.
\<close>

definition separator_ok :: "string \<Rightarrow> bool" where
  "separator_ok s =
    (case dropWhile (\<lambda>c. c \<noteq> CHR '';'') s of
       [] \<Rightarrow> True
     | semicolon # rest \<Rightarrow> list_all is_space rest)"

text \<open>
  Modelled from the spec: condition (e) of the missing validator. The spec does not say
  which occurrences of a comment marker could splice statements; under its
  deny-by-default policy every occurrence of \<open>--\<close>, \<open>/*\<close> or \<open>*/\<close> counts.
\<close>

definition has_comment_marker :: "string \<Rightarrow> bool" where
  "has_comment_marker s =
     (includes_str s ''--'' \<or> includes_str s ''/*'' \<or> includes_str s ''*/'')"

text \<open>
  Modelled from the spec: the transition of the missing \<open>SqlSafetyValidator\<close>. It accepts
  when (a) the text parses as exactly one statement, (b) that statement is a \<open>SELECT\<close>,
  and the conditions (c), (d) and (e) hold; everything else is rejected, with the first
  failed check as the reason. The terminal states are left as they are.
\<close>

fun validator_step ::
  "(string \<Rightarrow> statement_kind list option) \<Rightarrow> string \<Rightarrow> validator_state \<Rightarrow> validator_state" where
  "validator_step sql_parse s RECEIVED =
     (case sql_parse s of
        None \<Rightarrow> REJECTED ''unparseable''
      | Some [SELECT_statement] \<Rightarrow>
          if has_mutating_keyword s then REJECTED ''mutating keyword''
          else if \<not> separator_ok s then REJECTED ''statement separator''
          else if has_comment_marker s then REJECTED ''comment marker''
          else ACCEPTED
      | Some [other_statement] \<Rightarrow> REJECTED ''not a SELECT''
      | Some stmts \<Rightarrow> REJECTED ''not exactly one statement'')"
| "validator_step sql_parse s ACCEPTED = ACCEPTED"
| "validator_step sql_parse s (REJECTED reason) = REJECTED reason"

text \<open>
  Modelled from the spec: the verdict that the missing validator reports for a state.
\<close>

fun verdict_of :: "validator_state \<Rightarrow> SafetyVerdict" where
  "verdict_of ACCEPTED = \<lparr>allowed = True, violation = None\<rparr>"
| "verdict_of (REJECTED reason) = \<lparr>allowed = False, violation = Some reason\<rparr>"
| "verdict_of RECEIVED = \<lparr>allowed = False, violation = Some ''not validated''\<rparr>"

text \<open>
  Modelled from the spec: the missing \<open>SqlSafetyValidator\<close> itself, one transition from
  \<open>RECEIVED\<close> and the verdict of the state reached (spec section 4.4).
\<close>

definition SqlSafetyValidator ::
  "(string \<Rightarrow> statement_kind list option) \<Rightarrow> string \<Rightarrow> SafetyVerdict" where
  "SqlSafetyValidator sql_parse s = verdict_of (validator_step sql_parse s RECEIVED)"

text \<open>A parser for examples: it takes every text for a single \<open>SELECT\<close>.\<close>

definition lenient_parse :: "string \<Rightarrow> statement_kind list option" where
  "lenient_parse s = Some [SELECT_statement]"

subsection \<open>\<open>chartData\<close> on a store of objects\<close>

text \<open>
  Arrays and objects of JavaScript are mutable and are passed by reference. To state that
  \<open>chartData\<close> leaves its argument alone, the function is written a second time over a
  store: a list of objects, an address being a position in it. A fresh object is appended
  (\<open>alloc\<close>); an assignment to a property or an in-place \<open>sort\<close> replaces the object at
  its address. The \<open>QueryResult\<close> holds a reference to the array of rows, which holds
  references to the row arrays. The literal \<open>{}\<close>, \<open>[]\<close>, \<open>map\<close> and \<open>Object.entries\<close>
  create objects; \<open>acc[month] = ...\<close> and \<open>sort\<close> change one. The pairs of
  \<open>Object.entries\<close> and the points \<open>{ name, value }\<close> are created together with the
  array that holds them and are kept inside it.
\<close>

type_synonym addr = nat

datatype obj =
    DataObj "string list" addr string
  | RowsArr "addr list"
  | RowArr "cell list"
  | PlainObj js_object
  | EntriesArr "(string \<times> cell) list"
  | PointsArr "chart_point list"

type_synonym heap = "obj list"

definition alloc :: "heap \<Rightarrow> obj \<Rightarrow> addr \<times> heap" where
  "alloc h ob = (length h, h @ [ob])"

definition row_at :: "heap \<Rightarrow> addr \<Rightarrow> cell list option" where
  "row_at h r = (case at_index h r of Some (RowArr cs) \<Rightarrow> Some cs | _ \<Rightarrow> None)"

text \<open>The \<open>QueryResult\<close> that a reference denotes in a store, when it denotes one.\<close>

definition query_result_at :: "heap \<Rightarrow> addr \<Rightarrow> QueryResult option" where
  "query_result_at h a =
    (case at_index h a of
       Some (DataObj cols rowsRef q) \<Rightarrow>
         (case at_index h rowsRef of
            Some (RowsArr refs) \<Rightarrow>
              (case those (map (row_at h) refs) of
                 Some rs \<Rightarrow> Some \<lparr>columns = cols, rows = rs, query = q\<rparr>
               | None \<Rightarrow> None)
          | _ \<Rightarrow> None)
     | _ \<Rightarrow> None)"

text \<open>
  The two \<open>reduce\<close> loops: the accumulator is the object at \<open>acc\<close>, changed in place for
  each row.
\<close>

fun reduce_months :: "runtime \<Rightarrow> nat \<Rightarrow> addr \<Rightarrow> addr list \<Rightarrow> heap \<Rightarrow> (error + unit) \<times> heap" where
  "reduce_months rt dateColumnIndex acc [] h = (Inr (), h)"
| "reduce_months rt dateColumnIndex acc (r # refs) h =
     (case (row_at h r, at_index h acc) of
        (Some row, Some (PlainObj props)) \<Rightarrow>
          (case at_index row dateColumnIndex of
             Some (Str dateStr) \<Rightarrow>
               reduce_months rt dateColumnIndex acc refs
                 (h[acc := PlainObj (bump rt props (take 7 dateStr))])
           | _ \<Rightarrow> (Inl TypeError, h))
      | _ \<Rightarrow> (Inl TypeError, h))"

fun reduce_labels :: "runtime \<Rightarrow> nat \<Rightarrow> addr \<Rightarrow> addr list \<Rightarrow> heap \<Rightarrow> (error + unit) \<times> heap" where
  "reduce_labels rt labelColumnIndex acc [] h = (Inr (), h)"
| "reduce_labels rt labelColumnIndex acc (r # refs) h =
     (case (row_at h r, at_index h acc) of
        (Some row, Some (PlainObj props)) \<Rightarrow>
          reduce_labels rt labelColumnIndex acc refs
            (h[acc := PlainObj (bump rt props (String_js rt (at_index row labelColumnIndex)))])
      | _ \<Rightarrow> (Inl TypeError, h))"

text \<open>
  \<open>Object.entries(o).map(...)\<close>: the entries of the object at \<open>o\<close> go into a new array,
  and the points made from them into another.
\<close>

definition entries_to_points :: "heap \<Rightarrow> addr \<Rightarrow> (error + addr) \<times> heap" where
  "entries_to_points h o_ref =
    (case at_index h o_ref of
       Some (PlainObj props) \<Rightarrow>
         (case alloc h (EntriesArr (Object_entries props)) of
            (entries, h1) \<Rightarrow>
              (case at_index h1 entries of
                 Some (EntriesArr es) \<Rightarrow>
                   (case alloc h1 (PointsArr (to_points es)) of
                      (points, h2) \<Rightarrow> (Inr points, h2))
               | _ \<Rightarrow> (Inl TypeError, h1)))
     | _ \<Rightarrow> (Inl TypeError, h))"

text \<open>\<open>points.sort(compare)\<close>: the array at \<open>points\<close> is reordered in place.\<close>

definition sort_in_place ::
  "(chart_point \<Rightarrow> chart_point \<Rightarrow> int) \<Rightarrow> heap \<Rightarrow> addr \<Rightarrow> (error + addr) \<times> heap" where
  "sort_in_place compare h points =
    (case at_index h points of
       Some (PointsArr ps) \<Rightarrow> (Inr points, h[points := PointsArr (js_sort compare ps)])
     | _ \<Rightarrow> (Inl TypeError, h))"

definition chartData_heap :: "runtime \<Rightarrow> heap \<Rightarrow> addr \<Rightarrow> (error + addr) \<times> heap" where
  "chartData_heap rt h data =
    (case at_index h data of
       Some (DataObj cols rowsRef q) \<Rightarrow>
         (case at_index h rowsRef of
            Some (RowsArr refs) \<Rightarrow>
              (case refs of
                 [] \<Rightarrow> (case alloc h (PointsArr []) of (fresh, h1) \<Rightarrow> (Inr fresh, h1))
               | first # others \<Rightarrow>
                   (case row_at h first of
                      None \<Rightarrow> (Inl TypeError, h)
                    | Some firstRow \<Rightarrow>
                        (case findIndex (\<lambda>cell index. is_number cell) firstRow of
                           Some numericColumnIndex \<Rightarrow>
                             (case those (map (row_at h) refs) of
                                None \<Rightarrow> (Inl TypeError, h)
                              | Some rs \<Rightarrow>
                                  (case alloc h (PointsArr (map (\<lambda>row.
                                      \<lparr>name = String_js rt
                                         (at_index row (stringColumnIndex firstRow numericColumnIndex)),
                                       val = Num (Number_js rt (at_index row numericColumnIndex))\<rparr>)
                                      rs)) of
                                     (points, h1) \<Rightarrow> (Inr points, h1)))
                         | None \<Rightarrow>
                             (case findIndex (\<lambda>cell index. is_date_string cell) firstRow of
                                Some dateColumnIndex \<Rightarrow>
                                  (case alloc h (PlainObj []) of
                                     (acc, h1) \<Rightarrow>
                                       (case reduce_months rt dateColumnIndex acc refs h1 of
                                          (Inl e, h2) \<Rightarrow> (Inl e, h2)
                                        | (Inr u, h2) \<Rightarrow>
                                            (case entries_to_points h2 acc of
                                               (Inl e, h3) \<Rightarrow> (Inl e, h3)
                                             | (Inr points, h3) \<Rightarrow>
                                                 sort_in_place
                                                   (\<lambda>a b. localeCompare rt (name a) (name b))
                                                   h3 points)))
                              | None \<Rightarrow>
                                  (case findIndex (\<lambda>cell index. is_string cell) firstRow of
                                     Some labelColumnIndex \<Rightarrow>
                                       (case alloc h (PlainObj []) of
                                          (acc, h1) \<Rightarrow>
                                            (case reduce_labels rt labelColumnIndex acc refs h1 of
                                               (Inl e, h2) \<Rightarrow> (Inl e, h2)
                                             | (Inr u, h2) \<Rightarrow>
                                                 (case at_index h2 acc of
                                                    Some (PlainObj props) \<Rightarrow>
                                                      if 1 < length (Object_keys props)
                                                      then entries_to_points h2 acc
                                                      else (case alloc h2 (PointsArr []) of
                                                              (fresh, h3) \<Rightarrow> (Inr fresh, h3))
                                                  | _ \<Rightarrow> (Inl TypeError, h2))))
                                   | None \<Rightarrow>
                                       (case alloc h (PointsArr []) of
                                          (fresh, h1) \<Rightarrow> (Inr fresh, h1)))))))
          | _ \<Rightarrow> (Inl TypeError, h))
     | _ \<Rightarrow> (Inl TypeError, h))"

text \<open>What a run hands back: the error, or the points of the array it returns.\<close>

definition outcome :: "(error + addr) \<times> heap \<Rightarrow> error + chart_point list" where
  "outcome run =
    (case run of
       (Inl e, h) \<Rightarrow> Inl e
     | (Inr p, h) \<Rightarrow>
         (case at_index h p of Some (PointsArr ps) \<Rightarrow> Inr ps | _ \<Rightarrow> Inl TypeError))"

text \<open>
  A store for examples: three rows, the array of rows at address 3, the \<open>QueryResult\<close> at
  address 4.
\<close>

definition example_heap :: heap where
  "example_heap =
    [RowArr [Str ''S. Kumar'', Str ''2025-06-10'', Str ''Chain snatching incident''],
     RowArr [Str ''S. Kumar'', Str ''2025-05-15'', Str ''Theft of motorcycle''],
     RowArr [Str ''S. Kumar'', Str ''2025-05-22'', Str ''Shop burglary on Main St.''],
     RowsArr [0, 1, 2],
     DataObj [''Arresting Officer'', ''Arrest Date'', ''FIR Details''] 3 ''SELECT 1'']"

section \<open>Properties\<close>

subsection \<open>The mock database service\<close>

text \<open>
  C1, as amended: \<open>executeQuery\<close> computes no safety verdict and rejects nothing. For
  every SQL string the promise is fulfilled with a \<open>QueryResult\<close> whose \<open>query\<close> field is
  that string.
\<close>

theorem executeQuery_always_resolves:
  "\<exists>r. executeQuery s = Inr r \<and> query r = s"
  by (simp add: executeQuery_def Let_def)

text \<open>
  C1, the claim as stated fails: the candidate \<open>DROP TABLE FIR\<close> is not rejected. It
  falls through to the last branch and is answered with the whole crime table.
\<close>

theorem executeQuery_drop_table_counterexample:
  "executeQuery ''DROP TABLE FIR'' =
     Inr \<lparr>columns = [''Crime Type'', ''District'', ''Total Count''],
          rows = [[Str ''Theft'', Str ''Guntur'', Num (Finite 120)],
                  [Str ''Assault'', Str ''Guntur'', Num (Finite 45)],
                  [Str ''Burglary'', Str ''Guntur'', Num (Finite 78)],
                  [Str ''Robbery'', Str ''Guntur'', Num (Finite 30)],
                  [Str ''Theft'', Str ''Visakhapatnam'', Num (Finite 150)],
                  [Str ''Assault'', Str ''Visakhapatnam'', Num (Finite 60)]],
          query = ''DROP TABLE FIR''\<rparr>"
  by code_simp

text \<open>
  C9: in every result that \<open>executeQuery\<close> produces, each row has as many cells as there
  are column names.
\<close>

theorem executeQuery_row_length:
  "executeQuery s = Inr r \<Longrightarrow> \<forall>row \<in> set (rows r). length row = length (columns r)"
  by (auto simp: executeQuery_def Let_def split: if_splits)

theorem executeQuery_row_length_witness:
  "executeQuery ''SELECT d.x FROM OFFICER_MASTER d WHERE d.officer_name = 'Kumar' '' =
     Inr \<lparr>columns = [''Arresting Officer'', ''Arrest Date'', ''FIR Details''],
          rows = [[Str ''S. Kumar'', Str ''2025-05-15'', Str ''Theft of motorcycle''],
                  [Str ''S. Kumar'', Str ''2025-05-22'', Str ''Shop burglary on Main St.''],
                  [Str ''S. Kumar'', Str ''2025-06-10'', Str ''Chain snatching incident'']],
          query = ''SELECT d.x FROM OFFICER_MASTER d WHERE d.officer_name = 'Kumar' ''\<rparr>
   \<and> map length [[Str ''S. Kumar'', Str ''2025-05-15'', Str ''Theft of motorcycle''],
                  [Str ''S. Kumar'', Str ''2025-05-22'', Str ''Shop burglary on Main St.''],
                  [Str ''S. Kumar'', Str ''2025-06-10'', Str ''Chain snatching incident'']]
       = [length [''Arresting Officer'', ''Arrest Date'', ''FIR Details''],
          length [''Arresting Officer'', ''Arrest Date'', ''FIR Details''],
          length [''Arresting Officer'', ''Arrest Date'', ''FIR Details'']]"
proof -
  let ?s = "''SELECT d.x FROM OFFICER_MASTER d WHERE d.officer_name = 'Kumar' ''"
  let ?r = "\<lparr>columns = [''Arresting Officer'', ''Arrest Date'', ''FIR Details''],
          rows = [[Str ''S. Kumar'', Str ''2025-05-15'', Str ''Theft of motorcycle''],
                  [Str ''S. Kumar'', Str ''2025-05-22'', Str ''Shop burglary on Main St.''],
                  [Str ''S. Kumar'', Str ''2025-06-10'', Str ''Chain snatching incident'']],
          query = ?s\<rparr>"
  have h: "executeQuery ?s = Inr ?r"
    by code_simp
  show ?thesis
    using h executeQuery_row_length [OF h] by simp
qed



subsection \<open>The backend client\<close>

lemma get_prop_cases:
  "get_prop d k = Inl e \<longleftrightarrow> (d = JNull \<and> e = TypeError)"
  by (cases d) auto

text \<open>
  C10, as amended: \<open>processQuery\<close> rejects when the request itself fails, when the
  response is not ok, when the body of an ok response is not valid JSON, and when the
  parsed payload's \<open>error\<close> field is truthy (for a string: not empty). An ok response
  whose parsed payload is not \<open>null\<close> and has no truthy \<open>error\<close> field is returned
  unchanged. Nothing is said here about an ok response whose payload is \<open>null\<close>.
\<close>

theorem processQuery_rejects_iff:
  assumes "\<forall>r. fetch q = Inr r \<and> ok r \<longrightarrow> json_body r \<noteq> Some JNull"
  shows "isl (processQuery fetch q) =
     (case fetch q of
        Inl e \<Rightarrow> True
      | Inr r \<Rightarrow>
          \<not> ok r \<or>
          (case json_body r of
             None \<Rightarrow> True
           | Some data \<Rightarrow> \<exists>v. get_prop data ''error'' = Inr v \<and> truthy v))
   \<and> (\<not> isl (processQuery fetch q) \<longrightarrow>
        (\<exists>r data. fetch q = Inr r \<and> json_body r = Some data \<and> processQuery fetch q = Inr data))"
proof (cases "fetch q")
  case (Inl e)
  then show ?thesis by (simp add: processQuery_def)
next
  case (Inr r)
  show ?thesis
  proof (cases "json_body r")
    case None
    with Inr show ?thesis
      by (auto simp: processQuery_def Let_def split: sum.splits option.splits)
  next
    case (Some data)
    with Inr assms have "ok r \<longrightarrow> data \<noteq> JNull" by auto
    with Inr Some show ?thesis
      by (auto simp: processQuery_def Let_def get_prop_cases split: sum.splits option.splits)
  qed
qed

text \<open>
  An ok response whose payload has an empty \<open>error\<close> string is returned as it is.
\<close>

theorem processQuery_rejects_iff_witness:
  "processQuery
     (respond_with \<lparr>ok = True, status = 200,
        json_body = Some (JObject [(''sql'', JString ''SELECT 1''), (''error'', JString [])])\<rparr>)
     ''count''
   = Inr (JObject [(''sql'', JString ''SELECT 1''), (''error'', JString [])])"
  using processQuery_rejects_iff
    [of "respond_with \<lparr>ok = True, status = 200,
        json_body = Some (JObject [(''sql'', JString ''SELECT 1''), (''error'', JString [])])\<rparr>"
        "''count''"]
  by (simp add: respond_with_def)

text \<open>
  C10, the claim as stated fails: when \<open>fetch\<close> itself rejects there is no response, and
  when the body of an ok response is not JSON, \<open>response.json()\<close> rejects and there is
  no parsed payload. In both cases no status is ``not ok'' and no \<open>error\<close> field exists,
  yet \<open>processQuery\<close> rejects.
\<close>

theorem processQuery_invalid_body_counterexample:
  "processQuery (\<lambda>body. Inl FetchFailed) ''count'' = Inl FetchFailed
   \<and> processQuery (respond_with \<lparr>ok = True, status = 200, json_body = None\<rparr>) ''count''
     = Inl SyntaxError"
  by (simp add: processQuery_def respond_with_def)

subsection \<open>The SQL generator\<close>

lemma is_space_not_word: "is_space c \<Longrightarrow> \<not> is_word c"
  by (auto simp: is_space_def is_word_def Let_def)

lemma backtick_not_space: "\<not> is_space (CHR 0x60)"
  by (simp add: is_space_def)

lemma dropWhile_all: "list_all p xs \<Longrightarrow> dropWhile p (xs @ ys) = dropWhile p ys"
  by (induction xs) auto

lemma takeWhile_all: "list_all p xs \<Longrightarrow> takeWhile p (xs @ ys) = xs @ takeWhile p ys"
  by (induction xs) auto

lemma dropWhileEnd_all: "list_all p ys \<Longrightarrow> dropWhileEnd p (xs @ ys) = dropWhileEnd p xs"
  by (simp add: dropWhileEnd_def dropWhile_all list_all_iff)

lemma dropWhileEnd_last: "xs \<noteq> [] \<Longrightarrow> \<not> p (last xs) \<Longrightarrow> dropWhileEnd p xs = xs"
  by (cases xs rule: rev_cases) (auto simp: dropWhileEnd_def)

lemma dropWhile_hd: "xs \<noteq> [] \<Longrightarrow> \<not> p (hd xs) \<Longrightarrow> dropWhile p (xs @ ys) = xs @ ys"
  by (cases xs) auto

lemma takeWhile_hd: "xs \<noteq> [] \<Longrightarrow> \<not> p (hd xs) \<Longrightarrow> takeWhile p (xs @ ys) = []"
  by (cases xs) auto

lemma trim_core:
  assumes "list_all is_space lead" "list_all is_space trail"
    and "core \<noteq> []" "\<not> is_space (hd core)" "\<not> is_space (last core)"
  shows "trim (lead @ core @ trail) = core"
proof -
  have "dropWhile is_space (lead @ core @ trail) = core @ trail"
    using assms by (simp add: dropWhile_all dropWhile_hd)
  moreover have "dropWhileEnd is_space (core @ trail) = core"
    using assms by (simp add: dropWhileEnd_all dropWhileEnd_last)
  ultimately show ?thesis by (simp add: trim_def)
qed



lemma fence_match_split:
  "fence_match (fence @ body @ fence) =
     Some (takeWhile is_word body,
           dropWhileEnd is_space (dropWhile is_space (dropWhile is_word body)))"
proof -
  have len: "length fence = 3" by (simp add: fence_def)
  have "take (length (fence @ body @ fence) - 6) (drop 3 (fence @ body @ fence)) = body"
    using len by simp
  moreover have "6 \<le> length (fence @ body @ fence)"
    using len by simp
  moreover have "take 3 (fence @ body @ fence) = fence"
    using len by simp
  moreover have "drop (length (fence @ body @ fence) - 3) (fence @ body @ fence) = fence"
    using len by simp
  ultimately show ?thesis
    unfolding fence_match_def Let_def by simp
qed

lemma takeWhile_word_fenced:
  assumes "list_all is_word tag" "list_all is_space ws"
    and "payload \<noteq> []" "ws \<noteq> [] \<or> \<not> is_word (hd payload)"
  shows "takeWhile is_word (tag @ ws @ payload @ rest) = tag"
proof -
  have "takeWhile is_word (ws @ payload @ rest) = []"
  proof (cases ws)
    case Nil
    with assms(3,4) show ?thesis by (cases payload) auto
  next
    case (Cons c cs)
    with assms(2) have "\<not> is_word c" by (simp add: is_space_not_word)
    with Cons show ?thesis by simp
  qed
  with assms(1) show ?thesis by (simp add: takeWhile_all)
qed

lemma fence_match_fenced:
  assumes "list_all is_word tag" "list_all is_space ws" "list_all is_space ws'"
    and "payload \<noteq> []" "\<not> is_space (hd payload)" "\<not> is_space (last payload)"
    and "ws \<noteq> [] \<or> \<not> is_word (hd payload)"
  shows "fence_match (fence @ tag @ ws @ payload @ ws' @ fence) = Some (tag, payload)"
proof -
  let ?body = "tag @ ws @ payload @ ws'"
  have tw: "takeWhile is_word ?body = tag"
    using assms(1,2,4,7) by (rule takeWhile_word_fenced)
  have "takeWhile is_word ?body @ dropWhile is_word ?body = tag @ (ws @ payload @ ws')"
    by (simp only: takeWhile_dropWhile_id)
  then have "dropWhile is_word ?body = ws @ payload @ ws'"
    unfolding tw by (simp only: same_append_eq)
  then have "dropWhile is_space (dropWhile is_word ?body) = dropWhile is_space (payload @ ws')"
    using assms(2) by (simp only: dropWhile_all)
  also have "\<dots> = payload @ ws'"
    using assms(4,5) by (rule dropWhile_hd)
  finally have dw: "dropWhile is_space (dropWhile is_word ?body) = payload @ ws'" .
  have "dropWhileEnd is_space (payload @ ws') = dropWhileEnd is_space payload"
    using assms(3) by (rule dropWhileEnd_all)
  also have "\<dots> = payload"
    using assms(4,6) by (rule dropWhileEnd_last)
  finally have de: "dropWhileEnd is_space (payload @ ws') = payload" .
  have "fence_match (fence @ ?body @ fence) = Some (tag, payload)"
    unfolding fence_match_split tw dw de ..
  then show ?thesis by simp
qed

lemma strip_fence_fenced:
  assumes "list_all is_space lead" "list_all is_space trail"
    and "list_all is_word tag" "list_all is_space ws" "list_all is_space ws'"
    and "payload \<noteq> []" "\<not> is_space (hd payload)" "\<not> is_space (last payload)"
    and "ws \<noteq> [] \<or> \<not> is_word (hd payload)"
  shows "strip_fence (lead @ fence @ tag @ ws @ payload @ ws' @ fence @ trail) = payload"
proof -
  let ?core = "fence @ tag @ ws @ payload @ ws' @ fence"
  have "trim (lead @ ?core @ trail) = ?core"
    using assms(1,2) by (intro trim_core) (simp_all add: fence_def backtick_not_space)
  then have t: "trim (lead @ fence @ tag @ ws @ payload @ ws' @ fence @ trail) = ?core"
    by simp
  have m: "fence_match ?core = Some (tag, payload)"
    using assms by (intro fence_match_fenced)
  have p: "trim payload = payload"
    using trim_core [of "[]" "[]" payload] assms by simp
  show ?thesis
    unfolding strip_fence_def using t m p assms(6) by (simp add: Let_def)
qed

lemma fence_match_ends:
  assumes "fence_match s = Some (tag, inner)"
  shows "6 \<le> length s \<and> take 3 s = fence \<and> drop (length s - 3) s = fence"
proof (rule ccontr)
  assume "\<not> (6 \<le> length s \<and> take 3 s = fence \<and> drop (length s - 3) s = fence)"
  then have "fence_match s = None" unfolding fence_match_def by (simp only: if_False)
  with assms show False by simp
qed

lemma fence_match_groups:
  assumes "fence_match s = Some (tag, inner)"
  shows "tag = takeWhile is_word (take (length s - 6) (drop 3 s))
     \<and> inner = dropWhileEnd is_space
          (dropWhile is_space (dropWhile is_word (take (length s - 6) (drop 3 s))))"
proof -
  have "fence_match s =
      Some (takeWhile is_word (take (length s - 6) (drop 3 s)),
            dropWhileEnd is_space
              (dropWhile is_space (dropWhile is_word (take (length s - 6) (drop 3 s)))))"
    unfolding fence_match_def Let_def using fence_match_ends [OF assms] by (simp only: simp_thms if_True)
  with assms show ?thesis by simp
qed

lemma middle_split:
  "6 \<le> length s \<Longrightarrow> s = take 3 s @ take (length s - 6) (drop 3 s) @ drop (length s - 3) s"
proof -
  assume l: "6 \<le> length s"
  have "drop (length s - 6) (drop 3 s) = drop (length s - 3) s"
    using l by (simp add: add.commute)
  then have "take (length s - 6) (drop 3 s) @ drop (length s - 3) s = drop 3 s"
    using append_take_drop_id [of "length s - 6" "drop 3 s"] by simp
  then show ?thesis
    using append_take_drop_id [of 3 s] by simp
qed

lemma dropWhileEnd_split:
  "dropWhileEnd p xs @ rev (takeWhile p (rev xs)) = xs"
proof -
  have "rev (takeWhile p (rev xs) @ dropWhile p (rev xs)) = xs" by simp
  then show ?thesis
    unfolding rev_append dropWhileEnd_def .
qed

lemma dropWhileEnd_last_not:
  assumes "dropWhileEnd p xs \<noteq> []"
  shows "\<not> p (last (dropWhileEnd p xs))"
proof -
  from assms have n: "dropWhile p (rev xs) \<noteq> []" by (simp add: dropWhileEnd_def)
  then have "\<not> p (hd (dropWhile p (rev xs)))" by (rule hd_dropWhile)
  moreover have "last (rev (dropWhile p (rev xs))) = hd (dropWhile p (rev xs))"
    using n by (simp add: last_rev)
  ultimately show ?thesis by (simp add: dropWhileEnd_def)
qed

text \<open>
  What \<open>fence_match\<close> returns is a match of the pattern with the choices the matcher
  makes: the string is the opening backticks, the tag, white space, the second group,
  white space and the closing backticks; the tag cannot be extended by a word character,
  the white space after it cannot be extended, and the second group cannot be shortened.
\<close>

lemma fence_match_sound:
  assumes "fence_match s = Some (tag, inner)"
  shows "\<exists>ws ws'. s = fence @ tag @ ws @ inner @ ws' @ fence
       \<and> list_all is_word tag \<and> list_all is_space ws \<and> list_all is_space ws'
       \<and> (ws @ inner @ ws' = [] \<or> \<not> is_word (hd (ws @ inner @ ws')))
       \<and> (inner @ ws' = [] \<or> \<not> is_space (hd (inner @ ws')))
       \<and> (inner = [] \<or> \<not> is_space (last inner))"
proof -
  define body where "body = take (length s - 6) (drop 3 s)"
  define r1 where "r1 = dropWhile is_word body"
  define ws where "ws = takeWhile is_space r1"
  define rest where "rest = dropWhile is_space r1"
  define ws' where "ws' = rev (takeWhile is_space (rev rest))"
  from fence_match_ends [OF assms]
  have c: "6 \<le> length s" "take 3 s = fence" "drop (length s - 3) s = fence" by blast+
  from fence_match_groups [OF assms]
  have t: "tag = takeWhile is_word body" and i: "inner = dropWhileEnd is_space rest"
    unfolding body_def r1_def rest_def by blast+
  have "s = take 3 s @ body @ drop (length s - 3) s"
    unfolding body_def using c(1) by (rule middle_split)
  then have s: "s = fence @ body @ fence"
    unfolding c(2,3) .
  have b: "body = tag @ r1" unfolding t r1_def by simp
  have r: "r1 = ws @ rest" unfolding ws_def rest_def by simp
  have e: "rest = inner @ ws'" unfolding i ws'_def by (simp add: dropWhileEnd_split)
  have "fence @ body @ fence = fence @ tag @ ws @ inner @ ws' @ fence"
    unfolding b r e by simp
  with s have 1: "s = fence @ tag @ ws @ inner @ ws' @ fence" by (rule trans)
  have 2: "list_all is_word tag" unfolding t by (auto simp: list_all_iff dest: set_takeWhileD)
  have 3: "list_all is_space ws" unfolding ws_def by (auto simp: list_all_iff dest: set_takeWhileD)
  have 4: "list_all is_space ws'" unfolding ws'_def by (auto simp: list_all_iff dest: set_takeWhileD)
  have "r1 = [] \<or> \<not> is_word (hd r1)"
    unfolding r1_def using hd_dropWhile [of is_word body] by blast
  then have 5: "ws @ inner @ ws' = [] \<or> \<not> is_word (hd (ws @ inner @ ws'))"
    unfolding r e .
  have "rest = [] \<or> \<not> is_space (hd rest)"
    unfolding rest_def using hd_dropWhile [of is_space r1] by blast
  then have 6: "inner @ ws' = [] \<or> \<not> is_space (hd (inner @ ws'))"
    unfolding e .
  have 7: "inner = [] \<or> \<not> is_space (last inner)"
    unfolding i using dropWhileEnd_last_not by blast
  show ?thesis
    apply (rule exI [of _ ws])
    apply (rule exI [of _ ws'])
    using 1 2 3 4 5 6 7 apply (intro conjI)
          apply assumption+
    done
qed

lemma unescape_newlines_head:
  "\<exists>r. unescape_newlines (b # cs) = b # r \<or> unescape_newlines (b # cs) = newline # r"
  by (cases cs) auto

lemma unescape_newlines_clean:
  "\<not> includes_str (unescape_newlines s) [backslash, CHR ''n'']"
proof (induction s rule: unescape_newlines.induct)
  case (1 a b cs)
  obtain r where r: "unescape_newlines (b # cs) = b # r \<or> unescape_newlines (b # cs) = newline # r"
    using unescape_newlines_head by blast
  show ?case
  proof (cases "a = backslash \<and> b = CHR ''n''")
    case True
    with 1 show ?thesis by (auto simp: newline_def backslash_def)
  next
    case False
    with 1 r show ?thesis by (auto simp: newline_def backslash_def)
  qed
qed (auto simp: backslash_def)

lemma trim_decomp:
  "\<exists>lead trail. list_all is_space lead \<and> list_all is_space trail \<and> s = lead @ trim s @ trail"
proof -
  let ?lead = "takeWhile is_space s"
  let ?rest = "dropWhile is_space s"
  let ?trail = "rev (takeWhile is_space (rev ?rest))"
  have 1: "list_all is_space ?lead" by (auto simp: list_all_iff dest: set_takeWhileD)
  have 2: "list_all is_space ?trail" by (auto simp: list_all_iff dest: set_takeWhileD)
  have "?rest = trim s @ ?trail" unfolding trim_def by (simp add: dropWhileEnd_split)
  then have "?lead @ trim s @ ?trail = ?lead @ ?rest" by simp
  then have 3: "s = ?lead @ trim s @ ?trail" by simp
  from 1 2 3 show ?thesis by blast
qed

lemma strip_fence_unfenced:
  assumes "\<nexists>lead tag ws payload ws' trail.
        list_all is_space lead \<and> list_all is_space trail \<and> list_all is_word tag
      \<and> list_all is_space ws \<and> list_all is_space ws'
      \<and> payload \<noteq> [] \<and> \<not> is_space (hd payload) \<and> \<not> is_space (last payload)
      \<and> (ws \<noteq> [] \<or> \<not> is_word (hd payload))
      \<and> reply = lead @ fence @ tag @ ws @ payload @ ws' @ fence @ trail"
  shows "strip_fence reply = trim reply"
proof (cases "fence_match (trim reply)")
  case None
  then show ?thesis by (simp add: strip_fence_def Let_def)
next
  case (Some p)
  obtain tag inner where p: "p = (tag, inner)" by (cases p)
  have "inner = []"
  proof (rule ccontr)
    assume ne: "inner \<noteq> []"
    from Some p have m: "fence_match (trim reply) = Some (tag, inner)" by simp
    from fence_match_sound [OF m] obtain ws ws' where
      s: "trim reply = fence @ tag @ ws @ inner @ ws' @ fence"
      and c: "list_all is_word tag" "list_all is_space ws" "list_all is_space ws'"
      and w: "ws @ inner @ ws' = [] \<or> \<not> is_word (hd (ws @ inner @ ws'))"
      and h: "inner @ ws' = [] \<or> \<not> is_space (hd (inner @ ws'))"
      and l: "inner = [] \<or> \<not> is_space (last inner)"
      by blast
    obtain lead trail where d: "list_all is_space lead" "list_all is_space trail"
      "reply = lead @ trim reply @ trail"
      using trim_decomp by blast
    from ne h have h': "\<not> is_space (hd inner)" by simp
    from ne l have l': "\<not> is_space (last inner)" by simp
    from ne w have w': "ws \<noteq> [] \<or> \<not> is_word (hd inner)" by (cases ws) auto
    from d(3) s have r: "reply = lead @ fence @ tag @ ws @ inner @ ws' @ fence @ trail" by simp
    from assms d(1,2) c ne h' l' w' r show False by blast
  qed
  with Some p show ?thesis by (simp add: strip_fence_def Let_def)
qed

lemma unescape_newlines_same:
  "\<not> includes_str s [backslash, CHR ''n''] \<Longrightarrow> unescape_newlines s = s"
  by (induction s rule: unescape_newlines.induct) auto

lemma unescape_newlines_escape:
  "\<not> includes_str s [backslash, CHR ''n'']
   \<Longrightarrow> unescape_newlines (s @ backslash # CHR ''n'' # rest) = s @ newline # unescape_newlines rest"
proof (induction s)
  case Nil
  show ?case by simp
next
  case (Cons a s)
  then have n: "\<not> includes_str s [backslash, CHR ''n'']" and p: "\<not> prefix [backslash, CHR ''n''] (a # s)"
    by auto
  obtain b cs where bc: "s @ backslash # CHR ''n'' # rest = b # cs"
    by (cases "s @ backslash # CHR ''n'' # rest") auto
  have "\<not> (a = backslash \<and> b = CHR ''n'')"
  proof (cases s)
    case Nil
    with bc have "b = backslash" by simp
    then show ?thesis by (auto simp: backslash_def)
  next
    case (Cons c s')
    with bc have "b = c" by simp
    with p Cons show ?thesis by auto
  qed
  then have "unescape_newlines (a # b # cs) = a # unescape_newlines (b # cs)" by auto
  with bc Cons.IH [OF n] show ?case by simp
qed

lemma unescape_newlines_segments:
  "\<forall>seg\<in>set (first # segs). \<not> includes_str seg [backslash, CHR ''n'']
   \<Longrightarrow> unescape_newlines (first @ concat (map (\<lambda>seg. backslash # CHR ''n'' # seg) segs))
       = first @ concat (map (\<lambda>seg. newline # seg) segs)"
proof (induction segs arbitrary: first)
  case Nil
  then show ?case by (simp add: unescape_newlines_same)
next
  case (Cons g segs)
  from Cons.prems have f: "\<not> includes_str first [backslash, CHR ''n'']"
    and r: "\<forall>seg\<in>set (g # segs). \<not> includes_str seg [backslash, CHR ''n'']" by auto
  have "unescape_newlines (first @ backslash # CHR ''n'' # (g @ concat (map (\<lambda>seg. backslash # CHR ''n'' # seg) segs)))
      = first @ newline # unescape_newlines (g @ concat (map (\<lambda>seg. backslash # CHR ''n'' # seg) segs))"
    using f by (rule unescape_newlines_escape)
  with Cons.IH [OF r] show ?case by simp
qed

lemma escape_segments_short:
  assumes "length s < 2"
  shows "\<exists>first segs. s = first @ concat (map (\<lambda>seg. backslash # CHR ''n'' # seg) segs)
     \<and> (\<forall>seg\<in>set (first # segs). \<not> includes_str seg [backslash, CHR ''n''])"
proof -
  from assms have "\<not> includes_str s [backslash, CHR ''n'']"
    by (cases s) auto
  then have "s = s @ concat (map (\<lambda>seg. backslash # CHR ''n'' # seg) [])
     \<and> (\<forall>seg\<in>set (s # []). \<not> includes_str seg [backslash, CHR ''n''])"
    by simp
  then show ?thesis by blast
qed

lemma escape_segments_exist:
  "\<exists>first segs. s = first @ concat (map (\<lambda>seg. backslash # CHR ''n'' # seg) segs)
     \<and> (\<forall>seg\<in>set (first # segs). \<not> includes_str seg [backslash, CHR ''n''])"
proof (induction s rule: unescape_newlines.induct)
  case (1 a b cs)
  show ?case
  proof (cases "a = backslash \<and> b = CHR ''n''")
    case True
    with 1(1) obtain first segs where
      e: "cs = first @ concat (map (\<lambda>seg. backslash # CHR ''n'' # seg) segs)"
      and c: "\<forall>seg\<in>set (first # segs). \<not> includes_str seg [backslash, CHR ''n'']" by blast
    have "a # b # cs = [] @ concat (map (\<lambda>seg. backslash # CHR ''n'' # seg) (first # segs))"
      using True e by simp
    moreover have "\<forall>seg\<in>set ([] # first # segs). \<not> includes_str seg [backslash, CHR ''n'']"
      using c by simp
    ultimately show ?thesis by blast
  next
    case False
    with 1(2) obtain first segs where
      e: "b # cs = first @ concat (map (\<lambda>seg. backslash # CHR ''n'' # seg) segs)"
      and c: "\<forall>seg\<in>set (first # segs). \<not> includes_str seg [backslash, CHR ''n'']" by blast
    have "\<not> prefix [backslash, CHR ''n''] (a # first)"
    proof (cases first)
      case Nil
      then show ?thesis by simp
    next
      case (Cons c f)
      with e have "c = b" by simp
      with False Cons show ?thesis by auto
    qed
    with c have "\<forall>seg\<in>set ((a # first) # segs). \<not> includes_str seg [backslash, CHR ''n'']"
      by simp
    moreover have "a # b # cs = (a # first) @ concat (map (\<lambda>seg. backslash # CHR ''n'' # seg) segs)"
      using e by simp
    ultimately show ?thesis by blast
  qed
qed (rule escape_segments_short, simp)+

text \<open>
  C4: for every response that \<open>sendMessage\<close> delivers, the text that is parsed is the
  response without its code fence, and the SQL that is returned is the \<open>sql\<close> field with
  every escaped newline turned into a line feed.
  \<^item> A response is fenced when, white space around it apart, it is three backticks, a tag
    of word characters (which may be empty), white space, a payload, white space and three
    backticks; the payload is not empty, starts and ends with a character that is not
    white space and, when no white space follows the tag, does not start with a word
    character. The text parsed is then the payload alone.
  \<^item> Every other response is parsed as it is, trimmed.
  \<^item> When that text does not parse, the function fails with the error for an invalid
    response.
  \<^item> When it parses to a payload with a truthy \<open>summary\<close> and a non-empty string \<open>sql\<close>
    that is made of segments free of the escape (a backslash followed by the letter n),
    each segment after the first preceded by the escape, the SQL returned is the same
    segments, each after the first preceded by a line feed.
  \<^item> Every string is made of such segments.
\<close>

theorem generateSqlAndSummary_strips_fence_and_unescapes:
  assumes "sendMessage chat (user_prompt q) = (Inr reply, chat')"
  shows
    "(\<forall>lead tag ws payload ws' trail.
        list_all is_space lead \<and> list_all is_space trail \<and> list_all is_word tag
      \<and> list_all is_space ws \<and> list_all is_space ws'
      \<and> payload \<noteq> [] \<and> \<not> is_space (hd payload) \<and> \<not> is_space (last payload)
      \<and> (ws \<noteq> [] \<or> \<not> is_word (hd payload))
      \<and> reply = lead @ fence @ tag @ ws @ payload @ ws' @ fence @ trail
      \<longrightarrow> strip_fence reply = payload)
   \<and> ((\<nexists>lead tag ws payload ws' trail.
        list_all is_space lead \<and> list_all is_space trail \<and> list_all is_word tag
      \<and> list_all is_space ws \<and> list_all is_space ws'
      \<and> payload \<noteq> [] \<and> \<not> is_space (hd payload) \<and> \<not> is_space (last payload)
      \<and> (ws \<noteq> [] \<or> \<not> is_word (hd payload))
      \<and> reply = lead @ fence @ tag @ ws @ payload @ ws' @ fence @ trail)
      \<longrightarrow> strip_fence reply = trim reply)
   \<and> (JSON_parse (strip_fence reply) = None
      \<longrightarrow> generateSqlAndSummary JSON_parse sendMessage chat q = (Inl invalid_response, chat'))
   \<and> (\<forall>d first segs m.
        JSON_parse (strip_fence reply) = Some d
      \<and> get_prop d ''sql''
          = Inr (Some (JString (first @ concat (map (\<lambda>seg. backslash # CHR ''n'' # seg) segs))))
      \<and> first @ concat (map (\<lambda>seg. backslash # CHR ''n'' # seg) segs) \<noteq> []
      \<and> (\<forall>seg\<in>set (first # segs). \<not> includes_str seg [backslash, CHR ''n''])
      \<and> get_prop d ''summary'' = Inr (Some m) \<and> truthy (Some m)
      \<longrightarrow> generateSqlAndSummary JSON_parse sendMessage chat q
          = (Inr \<lparr>sql = first @ concat (map (\<lambda>seg. newline # seg) segs), summary = m\<rparr>, chat'))
   \<and> (\<forall>raw. \<exists>first segs.
        raw = first @ concat (map (\<lambda>seg. backslash # CHR ''n'' # seg) segs)
      \<and> (\<forall>seg\<in>set (first # segs). \<not> includes_str seg [backslash, CHR ''n'']))"
proof -
  have g: "generateSqlAndSummary JSON_parse sendMessage chat q
      = (parse_payload JSON_parse (strip_fence reply), chat')"
    using assms by (simp add: generateSqlAndSummary_def)
  have a: "\<forall>lead tag ws payload ws' trail.
        list_all is_space lead \<and> list_all is_space trail \<and> list_all is_word tag
      \<and> list_all is_space ws \<and> list_all is_space ws'
      \<and> payload \<noteq> [] \<and> \<not> is_space (hd payload) \<and> \<not> is_space (last payload)
      \<and> (ws \<noteq> [] \<or> \<not> is_word (hd payload))
      \<and> reply = lead @ fence @ tag @ ws @ payload @ ws' @ fence @ trail
      \<longrightarrow> strip_fence reply = payload"
  proof (intro allI impI)
    fix lead tag ws payload ws' trail
    assume h: "list_all is_space lead \<and> list_all is_space trail \<and> list_all is_word tag
      \<and> list_all is_space ws \<and> list_all is_space ws'
      \<and> payload \<noteq> [] \<and> \<not> is_space (hd payload) \<and> \<not> is_space (last payload)
      \<and> (ws \<noteq> [] \<or> \<not> is_word (hd payload))
      \<and> reply = lead @ fence @ tag @ ws @ payload @ ws' @ fence @ trail"
    then have "strip_fence (lead @ fence @ tag @ ws @ payload @ ws' @ fence @ trail) = payload"
      by (intro strip_fence_fenced) blast+
    with h show "strip_fence reply = payload" by simp
  qed
  have b: "(\<nexists>lead tag ws payload ws' trail.
        list_all is_space lead \<and> list_all is_space trail \<and> list_all is_word tag
      \<and> list_all is_space ws \<and> list_all is_space ws'
      \<and> payload \<noteq> [] \<and> \<not> is_space (hd payload) \<and> \<not> is_space (last payload)
      \<and> (ws \<noteq> [] \<or> \<not> is_word (hd payload))
      \<and> reply = lead @ fence @ tag @ ws @ payload @ ws' @ fence @ trail)
      \<longrightarrow> strip_fence reply = trim reply"
    by (rule impI) (rule strip_fence_unfenced)
  have c: "JSON_parse (strip_fence reply) = None
      \<longrightarrow> generateSqlAndSummary JSON_parse sendMessage chat q = (Inl invalid_response, chat')"
    using g by (simp add: parse_payload_def)
  have d: "\<forall>d first segs m.
        JSON_parse (strip_fence reply) = Some d
      \<and> get_prop d ''sql''
          = Inr (Some (JString (first @ concat (map (\<lambda>seg. backslash # CHR ''n'' # seg) segs))))
      \<and> first @ concat (map (\<lambda>seg. backslash # CHR ''n'' # seg) segs) \<noteq> []
      \<and> (\<forall>seg\<in>set (first # segs). \<not> includes_str seg [backslash, CHR ''n''])
      \<and> get_prop d ''summary'' = Inr (Some m) \<and> truthy (Some m)
      \<longrightarrow> generateSqlAndSummary JSON_parse sendMessage chat q
          = (Inr \<lparr>sql = first @ concat (map (\<lambda>seg. newline # seg) segs), summary = m\<rparr>, chat')"
  proof (intro allI impI)
    fix d first segs m
    let ?raw = "first @ concat (map (\<lambda>seg. backslash # CHR ''n'' # seg) segs)"
    assume h: "JSON_parse (strip_fence reply) = Some d
      \<and> get_prop d ''sql'' = Inr (Some (JString ?raw))
      \<and> ?raw \<noteq> []
      \<and> (\<forall>seg\<in>set (first # segs). \<not> includes_str seg [backslash, CHR ''n''])
      \<and> get_prop d ''summary'' = Inr (Some m) \<and> truthy (Some m)"
    then have u: "unescape_newlines ?raw = first @ concat (map (\<lambda>seg. newline # seg) segs)"
      by (intro unescape_newlines_segments) blast
    have t: "truthy (Some (JString ?raw))"
      using h by (simp only: truthy.simps) blast
    have "parse_payload JSON_parse (strip_fence reply)
        = Inr \<lparr>sql = unescape_newlines ?raw, summary = m\<rparr>"
      unfolding parse_payload_def using h t by simp
    with g u show "generateSqlAndSummary JSON_parse sendMessage chat q
          = (Inr \<lparr>sql = first @ concat (map (\<lambda>seg. newline # seg) segs), summary = m\<rparr>, chat')"
      by simp
  qed
  have e: "\<forall>raw. \<exists>first segs.
        raw = first @ concat (map (\<lambda>seg. backslash # CHR ''n'' # seg) segs)
      \<and> (\<forall>seg\<in>set (first # segs). \<not> includes_str seg [backslash, CHR ''n''])"
    using escape_segments_exist by blast
  from a b c d e show ?thesis
    by (intro conjI)
qed

text \<open>
  Two responses with an escaped newline in the \<open>sql\<close> field: one fenced as \<open>```json\<close>, one
  without a fence. Both give the same SQL, in two lines.
\<close>

theorem generateSqlAndSummary_strips_fence_and_unescapes_witness:
  "generateSqlAndSummary example_parse scripted
     [Inr (''```json'' @ [newline] @ payload_two @ [newline] @ ''```'' @ [newline])]
     ''List the FIR ids''
   = (Inr \<lparr>sql = ''SELECT f.fir_id'' @ [newline] @ ''FROM FIR f'',
            summary = JString ''All FIR ids''\<rparr>, [])
   \<and> generateSqlAndSummary example_parse scripted [Inr payload_two] ''List the FIR ids''
   = (Inr \<lparr>sql = ''SELECT f.fir_id'' @ [newline] @ ''FROM FIR f'',
            summary = JString ''All FIR ids''\<rparr>, [])"
proof -
  let ?fenced = "''```json'' @ [newline] @ payload_two @ [newline] @ ''```'' @ [newline]"
  let ?first = "''SELECT f.fir_id''"
  let ?segs = "[''FROM FIR f'']"
  let ?raw = "?first @ concat (map (\<lambda>seg. backslash # CHR ''n'' # seg) ?segs)"
  let ?m = "JString ''All FIR ids''"
  let ?d = "JObject [(''sql'', JString ?raw), (''summary'', ?m)]"
  let ?q = "''List the FIR ids''"
  have p: "example_parse payload_two = Some ?d"
    by code_simp
  have clean: "\<forall>seg\<in>set (?first # ?segs). \<not> includes_str seg [backslash, CHR ''n'']"
    by code_simp
  have fields: "get_prop ?d ''sql'' = Inr (Some (JString ?raw))" "?raw \<noteq> []"
    "get_prop ?d ''summary'' = Inr (Some ?m)" "truthy (Some ?m)"
    by simp_all
  have out: "?first @ concat (map (\<lambda>seg. newline # seg) ?segs)
      = ''SELECT f.fir_id'' @ [newline] @ ''FROM FIR f''"
    by simp

  have s1: "scripted [Inr ?fenced] (user_prompt ?q) = (Inr ?fenced, [])"
    by simp
  note t1 = generateSqlAndSummary_strips_fence_and_unescapes
    [where sendMessage = scripted and chat = "[Inr ?fenced]" and q = ?q and reply = ?fenced
       and chat' = "[]" and JSON_parse = example_parse, OF s1]
  have shape: "list_all is_space [] \<and> list_all is_space [newline] \<and> list_all is_word ''json''
      \<and> list_all is_space [newline] \<and> list_all is_space [newline]
      \<and> payload_two \<noteq> [] \<and> \<not> is_space (hd payload_two) \<and> \<not> is_space (last payload_two)
      \<and> ([newline] \<noteq> [] \<or> \<not> is_word (hd payload_two))
      \<and> ?fenced = [] @ fence @ ''json'' @ [newline] @ payload_two @ [newline] @ fence @ [newline]"
    by code_simp
  have f1: "strip_fence ?fenced = payload_two"
    using t1 [THEN conjunct1, rule_format, OF shape] .
  have r1: "generateSqlAndSummary example_parse scripted [Inr ?fenced] ?q
      = (Inr \<lparr>sql = ?first @ concat (map (\<lambda>seg. newline # seg) ?segs), summary = ?m\<rparr>, [])"
    using t1 [THEN conjunct2, THEN conjunct2, THEN conjunct2, THEN conjunct1, rule_format,
        of ?d ?first ?segs ?m] p clean fields unfolding f1 by blast

  have s2: "scripted [Inr payload_two] (user_prompt ?q) = (Inr payload_two, [])"
    by simp
  note t2 = generateSqlAndSummary_strips_fence_and_unescapes
    [where sendMessage = scripted and chat = "[Inr payload_two]" and q = ?q
       and reply = payload_two and chat' = "[]" and JSON_parse = example_parse, OF s2]
  have tick: "CHR 0x60 \<notin> set payload_two"
    by code_simp
  have bare: "\<nexists>lead tag ws payload ws' trail.
        list_all is_space lead \<and> list_all is_space trail \<and> list_all is_word tag
      \<and> list_all is_space ws \<and> list_all is_space ws'
      \<and> payload \<noteq> [] \<and> \<not> is_space (hd payload) \<and> \<not> is_space (last payload)
      \<and> (ws \<noteq> [] \<or> \<not> is_word (hd payload))
      \<and> payload_two = lead @ fence @ tag @ ws @ payload @ ws' @ fence @ trail"
  proof
    assume "\<exists>lead tag ws payload ws' trail.
        list_all is_space lead \<and> list_all is_space trail \<and> list_all is_word tag
      \<and> list_all is_space ws \<and> list_all is_space ws'
      \<and> payload \<noteq> [] \<and> \<not> is_space (hd payload) \<and> \<not> is_space (last payload)
      \<and> (ws \<noteq> [] \<or> \<not> is_word (hd payload))
      \<and> payload_two = lead @ fence @ tag @ ws @ payload @ ws' @ fence @ trail"
    then obtain lead rest where "payload_two = lead @ fence @ rest" by blast
    then have "set payload_two = set (lead @ fence @ rest)" by (rule arg_cong)
    then have "CHR 0x60 \<in> set payload_two" by (simp add: fence_def)
    with tick show False ..
  qed
  have tr: "trim payload_two = payload_two"
    by code_simp
  have f2: "strip_fence payload_two = payload_two"
    using t2 [THEN conjunct2, THEN conjunct1, rule_format, OF bare] tr by simp
  have r2: "generateSqlAndSummary example_parse scripted [Inr payload_two] ?q
      = (Inr \<lparr>sql = ?first @ concat (map (\<lambda>seg. newline # seg) ?segs), summary = ?m\<rparr>, [])"
    using t2 [THEN conjunct2, THEN conjunct2, THEN conjunct2, THEN conjunct1, rule_format,
        of ?d ?first ?segs ?m] p clean fields unfolding f2 by blast
  from r1 r2 show ?thesis
    unfolding out by (rule conjI)
qed

text \<open>Whatever the outcome, the session is asked exactly once.\<close>

lemma generateSqlAndSummary_one_call:
  "snd (generateSqlAndSummary JSON_parse sendMessage chat q) = snd (sendMessage chat (user_prompt q))"
  by (simp add: generateSqlAndSummary_def split: prod.splits sum.splits)

text \<open>
  C3, as amended: when the text of the response does not parse, or the parsed payload has
  no truthy \<open>sql\<close> field or no truthy \<open>summary\<close> field (a payload such as \<open>null\<close>, of which
  no field can be read, has neither), \<open>generateSqlAndSummary\<close> fails at once with the
  error for an invalid response. The session it leaves behind is the session after its
  single \<open>sendMessage\<close> call: no second call is made, and there is no fallback model. No
  SQL is returned.
\<close>

theorem generateSqlAndSummary_fails_without_retry:
  assumes "sendMessage chat (user_prompt q) = (Inr reply, chat')"
    and "JSON_parse (strip_fence reply) = None
       \<or> (\<exists>d. JSON_parse (strip_fence reply) = Some d
             \<and> ((\<nexists>v. get_prop d ''sql'' = Inr v \<and> truthy v)
                \<or> (\<nexists>v. get_prop d ''summary'' = Inr v \<and> truthy v)))"
  shows "generateSqlAndSummary JSON_parse sendMessage chat q = (Inl invalid_response, chat')"
proof -
  have "parse_payload JSON_parse (strip_fence reply) = Inl invalid_response"
    using assms(2)
    by (auto simp: parse_payload_def split: sum.splits option.splits)
  then show ?thesis
    using assms(1) by (simp add: generateSqlAndSummary_def)
qed

text \<open>
  The payload of the first response lacks the \<open>sql\<close> field; the second scripted response
  is never asked for. A response whose payload is \<open>null\<close> fails in the same way.
\<close>

theorem generateSqlAndSummary_fails_without_retry_witness:
  "generateSqlAndSummary example_parse scripted [Inr payload_no_sql, Inr payload_one] ''Show crimes''
     = (Inl invalid_response, [Inr payload_one])
   \<and> generateSqlAndSummary example_parse scripted [Inr ''null'', Inr payload_one]
       ''Show crimes''
     = (Inl invalid_response, [Inr payload_one])"
proof -
  have 1: "scripted [Inr payload_no_sql, Inr payload_one] (user_prompt ''Show crimes'')
             = (Inr payload_no_sql, [Inr payload_one])"
    by simp
  have 2: "strip_fence payload_no_sql = payload_no_sql"
    by code_simp
  have 3: "example_parse payload_no_sql = Some (JObject [(''summary'', JString ''One row'')])"
    by code_simp
  have "\<exists>d. example_parse (strip_fence payload_no_sql) = Some d
          \<and> ((\<nexists>v. get_prop d ''sql'' = Inr v \<and> truthy v)
             \<or> (\<nexists>v. get_prop d ''summary'' = Inr v \<and> truthy v))"
    using 2 3 by simp
  then have a: "generateSqlAndSummary example_parse scripted [Inr payload_no_sql, Inr payload_one]
       ''Show crimes'' = (Inl invalid_response, [Inr payload_one])"
    using generateSqlAndSummary_fails_without_retry
      [where sendMessage = scripted and chat = "[Inr payload_no_sql, Inr payload_one]"
         and q = "''Show crimes''" and reply = payload_no_sql and chat' = "[Inr payload_one]"
         and JSON_parse = example_parse, OF 1]
    by blast
  have 4: "scripted [Inr ''null'', Inr payload_one] (user_prompt ''Show crimes'')
             = (Inr ''null'', [Inr payload_one])"
    by simp
  have 5: "example_parse (strip_fence ''null'') = Some JNull"
    by code_simp
  have "\<exists>d. example_parse (strip_fence ''null'') = Some d
          \<and> ((\<nexists>v. get_prop d ''sql'' = Inr v \<and> truthy v)
             \<or> (\<nexists>v. get_prop d ''summary'' = Inr v \<and> truthy v))"
    using 5 by simp
  then have b: "generateSqlAndSummary example_parse scripted [Inr ''null'', Inr payload_one]
       ''Show crimes'' = (Inl invalid_response, [Inr payload_one])"
    using generateSqlAndSummary_fails_without_retry
      [where sendMessage = scripted and chat = "[Inr ''null'', Inr payload_one]"
         and q = "''Show crimes''" and reply = "''null''" and chat' = "[Inr payload_one]"
         and JSON_parse = example_parse, OF 4]
    by blast
  from a b show ?thesis by (rule conjI)
qed

text \<open>
  C3, the claim as stated fails: the first response is not JSON and a second, valid one
  is ready in the script. A retry would return its SQL; the function fails instead and
  the valid response stays in the script.
\<close>

theorem generateSqlAndSummary_retry_counterexample:
  "generateSqlAndSummary example_parse scripted
     [Inr ''Sorry, I cannot help with that.'', Inr payload_one] ''Show crimes''
   = (Inl invalid_response, [Inr payload_one])"
  by code_simp

subsection \<open>The result shaper: the first strategy\<close>

lemma findIndex_from_Some:
  "findIndex_from i p xs = Some k \<Longrightarrow>
     i \<le> k \<and> k < i + length xs \<and> p (xs ! (k - i)) k \<and> (\<forall>j<k - i. \<not> p (xs ! j) (i + j))"
proof (induction xs arbitrary: i)
  case Nil
  then show ?case by simp
next
  case (Cons x xs)
  show ?case
  proof (cases "p x i")
    case True
    with Cons.prems show ?thesis by simp
  next
    case False
    with Cons.prems have r: "findIndex_from (Suc i) p xs = Some k" by simp
    from Cons.IH [OF r]
    have ih: "Suc i \<le> k" "k < Suc i + length xs" "p (xs ! (k - Suc i)) k"
      "\<forall>j<k - Suc i. \<not> p (xs ! j) (Suc i + j)" by auto
    have "\<forall>j<k - i. \<not> p ((x # xs) ! j) (i + j)"
    proof (intro allI impI)
      fix j assume j: "j < k - i"
      show "\<not> p ((x # xs) ! j) (i + j)"
      proof (cases j)
        case 0
        with False show ?thesis by simp
      next
        case (Suc j')
        with j have "j' < k - Suc i" by simp
        with ih(4) have "\<not> p (xs ! j') (Suc i + j')" by blast
        with Suc show ?thesis by simp
      qed
    qed
    moreover have "(x # xs) ! (k - i) = xs ! (k - Suc i)"
      using ih(1) by (simp add: nth_Cons')
    ultimately show ?thesis
      using ih by simp
  qed
qed

lemma findIndex_from_None:
  "findIndex_from i p xs = None \<longleftrightarrow> (\<forall>j<length xs. \<not> p (xs ! j) (i + j))"
proof (induction xs arbitrary: i)
  case Nil
  then show ?case by simp
next
  case (Cons x xs)
  have "(\<forall>j<length (x # xs). \<not> p ((x # xs) ! j) (i + j))
      \<longleftrightarrow> (\<not> p x i \<and> (\<forall>j<length xs. \<not> p (xs ! j) (Suc i + j)))"
    by (auto simp: less_Suc_eq_0_disj)
  with Cons.IH [of "Suc i"] show ?case by simp
qed

lemma findIndex_Some:
  "findIndex p xs = Some k \<Longrightarrow> k < length xs \<and> p (xs ! k) k \<and> (\<forall>j<k. \<not> p (xs ! j) j)"
  using findIndex_from_Some [of 0 p xs k] by (simp add: findIndex_def)

lemma findIndex_None: "findIndex p xs = None \<longleftrightarrow> (\<forall>j<length xs. \<not> p (xs ! j) j)"
  using findIndex_from_None [of 0 p xs] by (simp add: findIndex_def)

lemma findIndex_exists:
  "\<exists>j<length xs. p (xs ! j) j \<Longrightarrow> \<exists>k. findIndex p xs = Some k"
  using findIndex_None [of p xs] by (cases "findIndex p xs") auto

lemma cell_kind: "is_string c \<longleftrightarrow> \<not> is_number c"
  by (cases c) auto

lemma stringColumnIndex_string:
  assumes "findIndex (\<lambda>cell index. is_number cell) firstRow = Some v"
    and "\<exists>i<length firstRow. is_string (firstRow ! i)"
  shows "stringColumnIndex firstRow v < length firstRow
       \<and> is_string (firstRow ! stringColumnIndex firstRow v)
       \<and> (\<forall>j<stringColumnIndex firstRow v. \<not> is_string (firstRow ! j))"
proof -
  from findIndex_Some [OF assms(1)] have v: "v < length firstRow" "is_number (firstRow ! v)"
    by auto
  from assms(2) obtain i where i: "i < length firstRow" "is_string (firstRow ! i)" by blast
  with v have "i \<noteq> v" by (auto simp: cell_kind)
  with i have "\<exists>j<length firstRow. is_string (firstRow ! j) \<and> j \<noteq> v" by blast
  then obtain l where l: "findIndex (\<lambda>cell index. is_string cell \<and> index \<noteq> v) firstRow = Some l"
    using findIndex_exists [of firstRow "\<lambda>cell index. is_string cell \<and> index \<noteq> v"] by blast
  from findIndex_Some [OF l]
  have p: "l < length firstRow" "is_string (firstRow ! l)" "l \<noteq> v"
    "\<forall>j<l. \<not> (is_string (firstRow ! j) \<and> j \<noteq> v)" by auto
  have "\<forall>j<l. \<not> is_string (firstRow ! j)"
  proof (intro allI impI)
    fix j assume "j < l"
    with p(4) have "\<not> is_string (firstRow ! j) \<or> j = v" by blast
    with v(2) show "\<not> is_string (firstRow ! j)" by (auto simp: cell_kind)
  qed
  with p l show ?thesis by (simp add: stringColumnIndex_def)
qed

lemma stringColumnIndex_no_string:
  assumes "findIndex (\<lambda>cell index. is_number cell) firstRow = Some v"
    and "\<forall>i<length firstRow. \<not> is_string (firstRow ! i)"
  shows "v = 0 \<and> stringColumnIndex firstRow v = (if 1 < length firstRow then 1 else 0)"
proof -
  from findIndex_Some [OF assms(1)]
  have v: "v < length firstRow" "\<forall>j<v. \<not> is_number (firstRow ! j)" by auto
  have v0: "v = 0"
  proof (rule ccontr)
    assume "v \<noteq> 0"
    then have "0 < v" by simp
    with v assms(2) show False by (auto simp: cell_kind)
  qed
  have a: "findIndex (\<lambda>cell index. is_string cell \<and> index \<noteq> v) firstRow = None"
    using assms(2) by (simp add: findIndex_None)
  show ?thesis
  proof (cases "1 < length firstRow")
    case True
    then have "\<exists>j<length firstRow. j \<noteq> 0" by (intro exI [of _ 1]) simp
    then obtain l where l: "findIndex (\<lambda>cell index. index \<noteq> 0) firstRow = Some l"
      using findIndex_exists [of firstRow "\<lambda>cell index. index \<noteq> 0"] by blast
    from findIndex_Some [OF l] have "l \<noteq> 0" "\<forall>j<l. \<not> j \<noteq> 0" by auto
    then have "l = 1" by (metis One_nat_def less_Suc0 less_one linorder_neqE_nat zero_neq_one)
    with a l v0 True show ?thesis by (simp add: stringColumnIndex_def)
  next
    case False
    with v(1) have "length firstRow = 1" by (cases firstRow) auto
    then have "findIndex (\<lambda>cell index. index \<noteq> 0) firstRow = None"
      by (simp add: findIndex_None)
    with a v0 False show ?thesis by (simp add: stringColumnIndex_def)
  qed
qed

text \<open>
  C5, as amended: when some cell of the first row is a number, \<open>chartData\<close> returns one
  point for each row (the categorical-value strategy): its value is \<open>Number\<close> of the row's
  cell in the first column whose first-row cell is a number, its name is \<open>String\<close> of the
  row's cell in the label column. The label column is the first column whose first-row
  cell is a string, when there is one. When the first row holds numbers only, the value
  column is column 0 and the label column is column 1, or column 0 itself when the row
  has a single cell.
\<close>

theorem chartData_categorical:
  assumes "rows d = firstRow # others"
    and "\<exists>j<length firstRow. is_number (firstRow ! j)"
  shows "\<exists>v l.
      chartData rt d =
        Inr (map (\<lambda>row. \<lparr>name = String_js rt (at_index row l),
                          val = Num (Number_js rt (at_index row v))\<rparr>) (rows d))
    \<and> v < length firstRow \<and> is_number (firstRow ! v) \<and> (\<forall>j<v. \<not> is_number (firstRow ! j))
    \<and> ((\<exists>i<length firstRow. is_string (firstRow ! i)) \<longrightarrow>
          l < length firstRow \<and> is_string (firstRow ! l) \<and> (\<forall>j<l. \<not> is_string (firstRow ! j)))
    \<and> ((\<forall>i<length firstRow. \<not> is_string (firstRow ! i)) \<longrightarrow>
          v = 0 \<and> l = (if 1 < length firstRow then 1 else 0))"
proof -
  from assms(2) obtain v where v: "findIndex (\<lambda>cell index. is_number cell) firstRow = Some v"
    using findIndex_exists [of firstRow "\<lambda>cell index. is_number cell"] by blast
  let ?l = "stringColumnIndex firstRow v"
  have "chartData rt d =
        Inr (map (\<lambda>row. \<lparr>name = String_js rt (at_index row ?l),
                          val = Num (Number_js rt (at_index row v))\<rparr>) (rows d))"
    using assms(1) v by (simp add: chartData_def)
  moreover from findIndex_Some [OF v]
  have "v < length firstRow \<and> is_number (firstRow ! v) \<and> (\<forall>j<v. \<not> is_number (firstRow ! j))"
    by simp
  moreover have "(\<exists>i<length firstRow. is_string (firstRow ! i)) \<longrightarrow>
          ?l < length firstRow \<and> is_string (firstRow ! ?l) \<and> (\<forall>j<?l. \<not> is_string (firstRow ! j))"
    using stringColumnIndex_string [OF v] by blast
  moreover have "(\<forall>i<length firstRow. \<not> is_string (firstRow ! i)) \<longrightarrow>
          v = 0 \<and> ?l = (if 1 < length firstRow then 1 else 0)"
    using stringColumnIndex_no_string [OF v] by blast
  ultimately show ?thesis by blast
qed

text \<open>
  The scenario of the claim: columns \<open>crime_type\<close> and \<open>count\<close>, rows \<open>("Theft", 120)\<close> and
  \<open>("Assault", 45)\<close>. The label column is \<open>crime_type\<close>, the value column is \<open>count\<close>.
\<close>

theorem chartData_categorical_witness:
  "chartData example_runtime
     \<lparr>columns = [''crime_type'', ''count''],
      rows = [[Str ''Theft'', Num (Finite 120)], [Str ''Assault'', Num (Finite 45)]],
      query = ''SELECT 1''\<rparr>
   = Inr [\<lparr>name = ''Theft'', val = Num (Finite 120)\<rparr>,
          \<lparr>name = ''Assault'', val = Num (Finite 45)\<rparr>]"
proof -
  let ?fr = "[Str ''Theft'', Num (Finite 120)]"
  let ?rs = "[?fr, [Str ''Assault'', Num (Finite 45)]]"
  let ?d = "\<lparr>columns = [''crime_type'', ''count''], rows = ?rs, query = ''SELECT 1''\<rparr>"
  have 1: "rows ?d = ?fr # tl ?rs" by simp
  have 2: "\<exists>j<length ?fr. is_number (?fr ! j)"
    by (intro exI [of _ 1]) simp
  have s: "\<exists>i<length ?fr. is_string (?fr ! i)"
    by (intro exI [of _ 0]) simp
  from chartData_categorical [OF 1 2, of example_runtime] obtain v l where
    eq: "chartData example_runtime ?d =
        Inr (map (\<lambda>row. \<lparr>name = String_js example_runtime (at_index row l),
                          val = Num (Number_js example_runtime (at_index row v))\<rparr>) (rows ?d))"
    and v: "v < length ?fr" "is_number (?fr ! v)"
    and l: "(\<exists>i<length ?fr. is_string (?fr ! i)) \<longrightarrow> l < length ?fr \<and> is_string (?fr ! l)"
    by blast
  from v have v1: "v = 1" by (cases v) auto
  from l s have "l < length ?fr" "is_string (?fr ! l)" by blast+
  then have l0: "l = 0" by (cases l) auto
  show ?thesis
    unfolding eq v1 l0 by (simp add: at_index_def)
qed

text \<open>
  C5, the claim as stated fails: with two numeric columns and no string column the label
  column is the second numeric column, not a non-numeric one.
\<close>

theorem chartData_categorical_counterexample:
  "chartData example_runtime
     \<lparr>columns = [''registered'', ''solved''],
      rows = [[Num (Finite 7), Num (Finite 3)]],
      query = ''SELECT 1''\<rparr>
   = Inr [\<lparr>name = ''3'', val = Num (Finite 7)\<rparr>]
   \<and> stringColumnIndex [Num (Finite 7), Num (Finite 3)] 0 = 1"
  by code_simp

subsection \<open>The result shaper: the second strategy\<close>

lemma map_of_set_property: "map_of (set_property acc k v) = (map_of acc)(k \<mapsto> v)"
  by (induction acc k v rule: set_property.induct) (auto simp: fun_eq_iff)

lemma keys_set_property:
  "map fst (set_property acc k v) =
     (if k \<in> set (map fst acc) then map fst acc else map fst acc @ [k])"
  by (induction acc k v rule: set_property.induct) auto

lemma count_list_pos: "k \<in> set xs \<Longrightarrow> 0 < count_list xs k"
  by (induction xs) auto

lemma proto_name_proto: "k \<notin> set Object_prototype_names \<Longrightarrow> k \<noteq> ''__proto__''"
  by (auto simp: Object_prototype_names_def)

lemma bump_counts:
  assumes "counts_of acc seen" and "k \<notin> set Object_prototype_names"
  shows "counts_of (bump rt acc k) (seen @ [k])"
proof -
  have np: "k \<noteq> ''__proto__''" using assms(2) by (rule proto_name_proto)
  have d: "distinct (map fst acc)" and s: "set (map fst acc) = set seen"
    and c: "\<forall>k\<in>set seen. map_of acc k = Some (Num (Finite (of_nat (count_list seen k))))"
    using assms(1) by (auto simp: counts_of_def)
  have inc: "incremented rt acc k = Num (Finite (of_nat (count_list (seen @ [k]) k)))"
  proof (cases "k \<in> set seen")
    case True
    with c have m: "map_of acc k = Some (Num (Finite (of_nat (count_list seen k))))" by blast
    from True have "0 < count_list seen k" by (rule count_list_pos)
    then have "(of_nat (count_list seen k) :: rat) \<noteq> 0" by simp
    with m show ?thesis by (simp add: incremented_def)
  next
    case False
    with s have "k \<notin> fst ` set acc" by simp
    then have "map_of acc k = None" by (simp add: map_of_eq_None_iff)
    with False assms(2) show ?thesis by (simp add: incremented_def)
  qed
  let ?acc = "set_property acc k (incremented rt acc k)"
  have b: "bump rt acc k = ?acc" using np by (simp add: bump_def)
  have k1: "map fst ?acc = (if k \<in> set seen then map fst acc else map fst acc @ [k])"
    using s by (simp add: keys_set_property)
  have "distinct (map fst ?acc)" using d s k1 by auto
  moreover have "set (map fst ?acc) = set (seen @ [k])" using s k1 by auto
  moreover have "\<forall>x\<in>set (seen @ [k]).
      map_of ?acc x = Some (Num (Finite (of_nat (count_list (seen @ [k]) x))))"
    using c inc by (auto simp: map_of_set_property)
  ultimately show ?thesis unfolding b counts_of_def by blast
qed

lemma foldl_bump_counts:
  "counts_of acc seen \<Longrightarrow> \<forall>k\<in>set ks. k \<notin> set Object_prototype_names \<Longrightarrow>
     counts_of (foldl (bump rt) acc ks) (seen @ ks)"
proof (induction ks arbitrary: acc seen)
  case Nil
  then show ?case by simp
next
  case (Cons k ks)
  from Cons.prems have "counts_of (bump rt acc k) (seen @ [k])"
    by (intro bump_counts) auto
  from Cons.IH [OF this] Cons.prems(2) show ?case by simp
qed

lemma aggregate_months_strings:
  "\<forall>row\<in>set rs. \<exists>s. at_index row c = Some (Str s) \<Longrightarrow>
     aggregate_months rt c acc rs = Inr (foldl (bump rt) acc (map (month_key c) rs))"
proof (induction rs arbitrary: acc)
  case Nil
  then show ?case by simp
next
  case (Cons row rs)
  from Cons.prems obtain s where s: "at_index row c = Some (Str s)" by auto
  from Cons.prems have "\<forall>row\<in>set rs. \<exists>s. at_index row c = Some (Str s)" by simp
  from Cons.IH [OF this] s show ?case by (simp add: month_key_def)
qed

lemma distinct_map_sort_key:
  "distinct (map g (sort_key f xs)) = distinct (map g xs)"
  by (simp add: distinct_map)

lemma set_Object_entries: "set (Object_entries obj) = set obj"
  by (auto simp: Object_entries_def)

lemma distinct_Object_entries:
  assumes "distinct (map fst obj)"
  shows "distinct (map fst (Object_entries obj))"
proof -
  let ?P = "\<lambda>p. array_index (fst p) \<noteq> None"
  have 1: "distinct (map fst (filter ?P obj))" "distinct (map fst (filter (\<lambda>p. \<not> ?P p) obj))"
    using assms by (simp_all add: distinct_map_filter)
  have 2: "fst ` set (filter ?P obj) \<inter> fst ` set (filter (\<lambda>p. \<not> ?P p) obj) = {}"
    by auto
  show ?thesis
    unfolding Object_entries_def using 1 2
    by (simp add: distinct_map_sort_key)
qed

lemma name_to_points: "map name (to_points es) = map fst es"
  by (simp add: to_points_def case_prod_beta)

lemma set_insert_by: "set (insert_by cmp x ys) = insert x (set ys)"
  by (induction ys) auto

lemma set_js_sort: "set (js_sort cmp xs) = set xs"
  by (induction xs) (auto simp: js_sort_def set_insert_by)

lemma distinct_insert_by: "distinct (insert_by cmp x ys) = (x \<notin> set ys \<and> distinct ys)"
  by (induction ys) (auto simp: set_insert_by)

lemma distinct_js_sort: "distinct (js_sort cmp xs) = distinct xs"
proof (induction xs)
  case Nil
  then show ?case by (simp add: js_sort_def)
next
  case (Cons x xs)
  have "js_sort cmp (x # xs) = insert_by cmp x (js_sort cmp xs)"
    by (simp add: js_sort_def)
  then show ?case
    using Cons by (simp add: distinct_insert_by set_js_sort)
qed

lemma distinct_map_js_sort: "distinct (map g (js_sort cmp xs)) = distinct (map g xs)"
  by (simp add: distinct_map distinct_js_sort set_js_sort)

lemma sorted_insert_by:
  assumes total: "\<And>a b. cmp a b \<le> 0 \<or> cmp b a \<le> 0"
    and trans: "\<And>a b c. cmp a b \<le> 0 \<Longrightarrow> cmp b c \<le> 0 \<Longrightarrow> cmp a c \<le> 0"
    and "sorted_wrt (\<lambda>a b. cmp a b \<le> 0) ys"
  shows "sorted_wrt (\<lambda>a b. cmp a b \<le> 0) (insert_by cmp x ys)"
  using assms(3)
proof (induction ys)
  case Nil
  then show ?case by simp
next
  case (Cons y ys)
  show ?case
  proof (cases "cmp x y \<le> 0")
    case True
    with Cons.prems trans show ?thesis by (auto)
  next
    case False
    with total have "cmp y x \<le> 0" by blast
    with False Cons show ?thesis by (auto simp: set_insert_by)
  qed
qed

lemma sorted_js_sort:
  assumes total: "\<And>a b. cmp a b \<le> 0 \<or> cmp b a \<le> 0"
    and trans: "\<And>a b c. cmp a b \<le> 0 \<Longrightarrow> cmp b c \<le> 0 \<Longrightarrow> cmp a c \<le> 0"
  shows "sorted_wrt (\<lambda>a b. cmp a b \<le> 0) (js_sort cmp xs)"
proof (induction xs)
  case Nil
  then show ?case by (simp add: js_sort_def)
next
  case (Cons x xs)
  have "js_sort cmp (x # xs) = insert_by cmp x (js_sort cmp xs)"
    by (simp add: js_sort_def)
  with Cons sorted_insert_by [of cmp, OF total trans] show ?case by simp
qed

lemma val_to_points: "p \<in> set (to_points es) \<Longrightarrow> (name p, val p) \<in> set es"
  by (auto simp: to_points_def)

text \<open>
  Where the code meets C6: when no cell of the first row is a number and \<open>c\<close> is the
  first column whose first-row cell matches \<open>YYYY-MM-DD\<close>, and every row holds a string in
  column \<open>c\<close> whose first seven characters are not a name inherited from
  \<open>Object.prototype\<close> (of these names only \<open>valueOf\<close> has seven characters or fewer),
  \<open>chartData\<close> returns the date-count series: one point for each distinct seven-character
  prefix, its value the number of rows with that prefix, the points in ascending order of
  \<open>localeCompare\<close> on their names. \<open>localeCompare\<close> is taken to be a total, transitive
  comparison.
\<close>

theorem chartData_date_count:
  assumes "rows d = firstRow # others"
    and "\<forall>j<length firstRow. \<not> is_number (firstRow ! j)"
    and "findIndex (\<lambda>cell index. is_date_string cell) firstRow = Some c"
    and "\<forall>row\<in>set (rows d). \<exists>s. at_index row c = Some (Str s)"
    and "\<forall>row\<in>set (rows d). month_key c row \<notin> set Object_prototype_names"
    and "\<forall>a b. localeCompare rt a b \<le> 0 \<or> localeCompare rt b a \<le> 0"
    and "\<forall>a b c. localeCompare rt a b \<le> 0 \<and> localeCompare rt b c \<le> 0
           \<longrightarrow> localeCompare rt a c \<le> 0"
  shows "\<exists>series.
      chartData rt d = Inr series
    \<and> set (map name series) = set (map (month_key c) (rows d))
    \<and> distinct (map name series)
    \<and> (\<forall>p\<in>set series.
          val p = Num (Finite (of_nat (count_list (map (month_key c) (rows d)) (name p)))))
    \<and> sorted_wrt (\<lambda>a b. localeCompare rt (name a) (name b) \<le> 0) series"
proof -
  let ?ks = "map (month_key c) (rows d)"
  let ?agg = "foldl (bump rt) [] ?ks"
  let ?cmp = "\<lambda>a b. localeCompare rt (name a) (name b)"
  let ?series = "js_sort ?cmp (to_points (Object_entries ?agg))"
  have nonum: "findIndex (\<lambda>cell index. is_number cell) firstRow = None"
    using assms(2) by (simp add: findIndex_None)
  have agg: "aggregate_months rt c [] (rows d) = Inr ?agg"
    using assms(4) by (rule aggregate_months_strings)
  have cd: "chartData rt d = Inr ?series"
    using assms(1,3) nonum agg by (simp add: chartData_def)
  have "counts_of [] []" by (simp add: counts_of_def)
  moreover have "\<forall>k\<in>set ?ks. k \<notin> set Object_prototype_names"
    using assms(5) by simp
  ultimately have "counts_of ?agg ([] @ ?ks)"
    by (rule foldl_bump_counts)
  then have "counts_of ?agg ?ks" by simp
  then have co: "distinct (map fst ?agg)" "set (map fst ?agg) = set ?ks"
    "\<forall>k\<in>set ?ks. map_of ?agg k = Some (Num (Finite (of_nat (count_list ?ks k))))"
    unfolding counts_of_def by blast+
  have names: "set (map name ?series) = set ?ks"
  proof -
    have "set (map name ?series) = name ` set (to_points (Object_entries ?agg))"
      by (simp add: set_js_sort)
    also have "\<dots> = set (map name (to_points (Object_entries ?agg)))" by simp
    also have "\<dots> = fst ` set (Object_entries ?agg)" by (simp add: name_to_points)
    also have "\<dots> = set (map fst ?agg)" by (simp add: set_Object_entries)
    finally show ?thesis using co(2) by simp
  qed
  have dist: "distinct (map name ?series)"
    using distinct_Object_entries [OF co(1)]
    by (simp add: distinct_map_js_sort name_to_points)
  have vals: "\<forall>p\<in>set ?series. val p = Num (Finite (of_nat (count_list ?ks (name p))))"
  proof
    fix p assume "p \<in> set ?series"
    then have "p \<in> set (to_points (Object_entries ?agg))" by (simp add: set_js_sort)
    then have "(name p, val p) \<in> set (Object_entries ?agg)" by (rule val_to_points)
    then have m: "(name p, val p) \<in> set ?agg" by (simp add: set_Object_entries)
    with co(1) have "map_of ?agg (name p) = Some (val p)" by simp
    moreover from m have "name p \<in> set (map fst ?agg)" by force
    ultimately show "val p = Num (Finite (of_nat (count_list ?ks (name p))))"
      using co(2,3) by auto
  qed
  have sorted: "sorted_wrt (\<lambda>a b. ?cmp a b \<le> 0) ?series"
  proof (rule sorted_js_sort)
    show "\<And>a b. ?cmp a b \<le> 0 \<or> ?cmp b a \<le> 0" using assms(6) by blast
    show "\<And>a b c. ?cmp a b \<le> 0 \<Longrightarrow> ?cmp b c \<le> 0 \<Longrightarrow> ?cmp a c \<le> 0"
      using assms(7) by blast
  qed
  show ?thesis
    using cd names dist vals sorted by blast
qed

lemma compare_code_units_total:
  "compare_code_units a b \<le> 0 \<or> compare_code_units b a \<le> 0"
  by (induction a b rule: compare_code_units.induct) auto

lemma compare_code_units_trans:
  "compare_code_units a b \<le> 0 \<Longrightarrow> compare_code_units b c \<le> 0 \<Longrightarrow> compare_code_units a c \<le> 0"
proof (induction a arbitrary: b c)
  case Nil
  then show ?case by (cases c) auto
next
  case (Cons x xs)
  from Cons.prems(1) obtain y ys where b: "b = y # ys" by (cases b) auto
  from Cons.prems(2) b obtain z zs where c: "c = z # zs" by (cases c) auto
  from Cons.prems b c Cons.IH [of ys zs] show ?case
    by (auto split: if_splits)
qed

text \<open>
  Three arrests, two of them in May 2025; the rows arrive with the June arrest first.
\<close>

theorem chartData_date_count_witness:
  "chartData example_runtime
     \<lparr>columns = [''Arresting Officer'', ''Arrest Date'', ''FIR Details''],
      rows = [[Str ''S. Kumar'', Str ''2025-06-10'', Str ''Chain snatching incident''],
              [Str ''S. Kumar'', Str ''2025-05-15'', Str ''Theft of motorcycle''],
              [Str ''S. Kumar'', Str ''2025-05-22'', Str ''Shop burglary on Main St.'']],
      query = ''SELECT 1''\<rparr>
   = Inr [\<lparr>name = ''2025-05'', val = Num (Finite 2)\<rparr>,
          \<lparr>name = ''2025-06'', val = Num (Finite 1)\<rparr>]"
proof -
  let ?fr = "[Str ''S. Kumar'', Str ''2025-06-10'', Str ''Chain snatching incident'']"
  let ?rs = "[?fr,
              [Str ''S. Kumar'', Str ''2025-05-15'', Str ''Theft of motorcycle''],
              [Str ''S. Kumar'', Str ''2025-05-22'', Str ''Shop burglary on Main St.'']]"
  let ?d = "\<lparr>columns = [''Arresting Officer'', ''Arrest Date'', ''FIR Details''],
             rows = ?rs, query = ''SELECT 1''\<rparr>"
  have 1: "rows ?d = ?fr # tl ?rs" by simp
  have 2: "\<forall>j<length ?fr. \<not> is_number (?fr ! j)"
  proof -
    have "list_all (\<lambda>c. \<not> is_number c) ?fr" by simp
    then show ?thesis unfolding list_all_length .
  qed
  have 3: "findIndex (\<lambda>cell index. is_date_string cell) ?fr = Some 1"
    by code_simp
  have 4: "\<forall>row\<in>set (rows ?d). \<exists>s. at_index row 1 = Some (Str s)"
    by (simp add: at_index_def)
  have 5: "\<forall>row\<in>set (rows ?d). month_key 1 row \<notin> set Object_prototype_names"
    by (simp add: month_key_def at_index_def Object_prototype_names_def)
  have 6: "\<forall>a b. localeCompare example_runtime a b \<le> 0 \<or> localeCompare example_runtime b a \<le> 0"
    using compare_code_units_total by (simp add: example_runtime_def)
  have 7: "\<forall>a b c. localeCompare example_runtime a b \<le> 0 \<and> localeCompare example_runtime b c \<le> 0
           \<longrightarrow> localeCompare example_runtime a c \<le> 0"
    using compare_code_units_trans by (auto simp: example_runtime_def)
  have e: "chartData example_runtime ?d
           = Inr [\<lparr>name = ''2025-05'', val = Num (Finite 2)\<rparr>,
                  \<lparr>name = ''2025-06'', val = Num (Finite 1)\<rparr>]"
    by code_simp
  from chartData_date_count [OF 1 2 3 4 5 6 7] e show ?thesis by simp
qed

text \<open>
  C6, where the code breaks it: the first row holds a date string and no number, the
  second row holds a number in the same column. The claim asks for the date-count series
  with the two rows counted by month. The second strategy reads the cell with a type
  assertion and calls \<open>substring\<close> on it, where the first and the third strategy convert
  the cell with \<open>String\<close>; \<open>substring\<close> is not a function of a number, and \<open>chartData\<close>
  throws a \<open>TypeError\<close> instead of returning a series.
\<close>

theorem chartData_date_count_throws:
  "chartData example_runtime
     \<lparr>columns = [''Arrest Date''],
      rows = [[Str ''2025-05-15''], [Num (Finite 20250522)]],
      query = ''SELECT arrest_date FROM ARREST''\<rparr>
   = Inl TypeError"
  by code_simp

subsection \<open>Components the sources do not contain\<close>

lemma includes_str_sublist: "includes_str s t = sublist t s"
  by (induction s) (auto simp: sublist_Cons_right)

lemma separator_ok_iff:
  "separator_ok s \<longleftrightarrow> (\<forall>pre post. s = pre @ CHR '';'' # post \<longrightarrow> list_all is_space post)"
proof
  assume ok: "separator_ok s"
  show "\<forall>pre post. s = pre @ CHR '';'' # post \<longrightarrow> list_all is_space post"
  proof (intro allI impI)
    fix pre post assume s: "s = pre @ CHR '';'' # post"
    let ?t = "takeWhile (\<lambda>c. c \<noteq> CHR '';'') pre"
    show "list_all is_space post"
    proof (cases "CHR '';'' \<in> set pre")
      case False
      then have "dropWhile (\<lambda>c. c \<noteq> CHR '';'') s = CHR '';'' # post"
        unfolding s by (auto simp: dropWhile_append3)
      with ok show ?thesis by (simp add: separator_ok_def)
    next
      case True
      then obtain a b where ab: "pre = a @ CHR '';'' # b" "CHR '';'' \<notin> set a"
        by (meson split_list_first)
      then have "dropWhile (\<lambda>c. c \<noteq> CHR '';'') s = CHR '';'' # b @ CHR '';'' # post"
        unfolding s by (auto simp: dropWhile_append3)
      with ok show ?thesis by (simp add: separator_ok_def)
    qed
  qed
next
  assume a: "\<forall>pre post. s = pre @ CHR '';'' # post \<longrightarrow> list_all is_space post"
  show "separator_ok s"
  proof (cases "dropWhile (\<lambda>c. c \<noteq> CHR '';'') s")
    case Nil
    show ?thesis unfolding separator_ok_def Nil by simp
  next
    case (Cons c rest)
    then have "c = CHR '';''"
      using hd_dropWhile [of "\<lambda>c. c \<noteq> CHR '';''" s] by auto
    with Cons have "s = takeWhile (\<lambda>c. c \<noteq> CHR '';'') s @ CHR '';'' # rest"
      using takeWhile_dropWhile_id [of "\<lambda>c. c \<noteq> CHR '';''" s] by simp
    with a have "list_all is_space rest" by blast
    then show ?thesis unfolding separator_ok_def Cons by simp
  qed
qed

lemma has_mutating_keyword_iff:
  "has_mutating_keyword s \<longleftrightarrow>
     (\<exists>kw\<in>set mutating_keywords. sublist (toLowerCase kw) (toLowerCase s))"
  by (simp add: has_mutating_keyword_def list_ex_iff includes_str_sublist)

lemma allowed_step:
  "allowed (verdict_of (validator_step p s RECEIVED)) \<longleftrightarrow>
     p s = Some [SELECT_statement] \<and> \<not> has_mutating_keyword s \<and> separator_ok s
     \<and> \<not> has_comment_marker s"
  by (auto split: option.splits list.splits statement_kind.splits)

text \<open>
  C2 (on the validator as modelled from the spec): the verdict allows a text exactly when
  it parses as a single \<open>SELECT\<close> statement, no mutating or DDL keyword occurs in it in
  any case of letters, every semicolon in it is followed by white space only (so there
  is at most one, the trailing terminator), and none of the comment markers occurs. A
  text that does not parse is not allowed.
\<close>

theorem SqlSafetyValidator_allowed_iff:
  "allowed (SqlSafetyValidator sql_parse s) \<longleftrightarrow>
     sql_parse s = Some [SELECT_statement]
   \<and> \<not> (\<exists>kw\<in>set mutating_keywords. sublist (toLowerCase kw) (toLowerCase s))
   \<and> (\<forall>pre post. s = pre @ CHR '';'' # post \<longrightarrow> list_all is_space post)
   \<and> \<not> sublist ''--'' s \<and> \<not> sublist ''/*'' s \<and> \<not> sublist ''*/'' s"
  unfolding SqlSafetyValidator_def allowed_step has_mutating_keyword_iff separator_ok_iff
    has_comment_marker_def includes_str_sublist
  by blast

text \<open>
  A terminated \<open>SELECT\<close> is allowed; a second statement after the semicolon and a
  trailing comment are not.
\<close>

theorem SqlSafetyValidator_allowed_iff_witness:
  "allowed (SqlSafetyValidator lenient_parse ''SELECT f.fir_id FROM FIR f WHERE f.district_id = 1;'')
   \<and> \<not> allowed (SqlSafetyValidator lenient_parse ''SELECT 1; DROP TABLE FIR'')
   \<and> \<not> allowed (SqlSafetyValidator lenient_parse ''SELECT 1 -- DROP'')"
proof -
  have "allowed (SqlSafetyValidator lenient_parse ''SELECT f.fir_id FROM FIR f WHERE f.district_id = 1;'')"
    by code_simp
  moreover have "\<not> allowed (SqlSafetyValidator lenient_parse ''SELECT 1; DROP TABLE FIR'')"
  proof -
    have "sublist (toLowerCase ''DROP'') (toLowerCase ''SELECT 1; DROP TABLE FIR'')"
      unfolding includes_str_sublist [symmetric] by code_simp
    then show ?thesis
      using SqlSafetyValidator_allowed_iff [of lenient_parse "''SELECT 1; DROP TABLE FIR''"]
      by (auto simp: mutating_keywords_def)
  qed
  moreover have "\<not> allowed (SqlSafetyValidator lenient_parse ''SELECT 1 -- DROP'')"
    by code_simp
  ultimately show ?thesis by blast
qed

subsection \<open>The result shaper on a store\<close>

lemma at_index_prefix:
  "at_index h0 r = Some x \<Longrightarrow> take (length h0) h = h0 \<Longrightarrow> at_index h r = Some x"
proof -
  assume a: "at_index h0 r = Some x" and t: "take (length h0) h = h0"
  from a have r: "r < length h0" "h0 ! r = x" by (auto simp: at_index_def split: if_splits)
  from t have "length h0 \<le> length h" by (metis length_take min.cobounded1)
  moreover from r t have "h ! r = x" by (metis nth_take)
  ultimately show ?thesis using r by (simp add: at_index_def)
qed

lemma row_at_prefix:
  "row_at h0 r = Some row \<Longrightarrow> take (length h0) h = h0 \<Longrightarrow> row_at h r = Some row"
proof -
  assume a: "row_at h0 r = Some row" and t: "take (length h0) h = h0"
  from a have "at_index h0 r = Some (RowArr row)"
    by (auto simp: row_at_def split: option.splits obj.splits)
  from at_index_prefix [OF this t] show ?thesis by (simp add: row_at_def)
qed

lemma those_Cons:
  "those (map f (r # refs)) = Some rs \<longleftrightarrow>
     (\<exists>row rs'. f r = Some row \<and> those (map f refs) = Some rs' \<and> rs = row # rs')"
  by (auto split: option.splits)

lemma those_rows_prefix:
  "those (map (row_at h0) refs) = Some rs \<Longrightarrow> take (length h0) h = h0 \<Longrightarrow>
     those (map (row_at h) refs) = Some rs"
proof (induction refs arbitrary: rs)
  case Nil
  then show ?case by simp
next
  case (Cons r refs)
  from Cons.prems(1) obtain row rs' where
    r: "row_at h0 r = Some row" "those (map (row_at h0) refs) = Some rs'" "rs = row # rs'"
    unfolding those_Cons by blast
  from Cons.IH [OF r(2) Cons.prems(2)] row_at_prefix [OF r(1) Cons.prems(2)] r(3)
  show ?case by simp
qed

lemma query_result_at_prefix:
  assumes "query_result_at h0 a = Some d" and "take (length h0) h = h0"
  shows "query_result_at h a = Some d"
proof -
  from assms(1) obtain cols rowsRef q refs rs where
    f: "at_index h0 a = Some (DataObj cols rowsRef q)" "at_index h0 rowsRef = Some (RowsArr refs)"
      "those (map (row_at h0) refs) = Some rs" "d = \<lparr>columns = cols, rows = rs, query = q\<rparr>"
    by (auto simp: query_result_at_def split: option.splits obj.splits)
  from at_index_prefix [OF f(1) assms(2)] at_index_prefix [OF f(2) assms(2)]
    those_rows_prefix [OF f(3) assms(2)] f(4)
  show ?thesis by (simp add: query_result_at_def)
qed

lemma take_update_above: "n \<le> a \<Longrightarrow> take n (h[a := ob]) = take n h"
  by simp

lemma at_index_update_same: "a < length h \<Longrightarrow> at_index (h[a := ob]) a = Some ob"
  by (simp add: at_index_def)

lemma reduce_months_run:
  assumes "those (map (row_at h0) refs) = Some rs"
    and "take (length h0) h = h0" and "length h0 \<le> acc"
    and "at_index h acc = Some (PlainObj props)"
  shows "\<exists>h'. take (length h0) h' = h0 \<and>
      (case aggregate_months rt c props rs of
         Inl e \<Rightarrow> reduce_months rt c acc refs h = (Inl e, h')
       | Inr agg \<Rightarrow> reduce_months rt c acc refs h = (Inr (), h')
                     \<and> at_index h' acc = Some (PlainObj agg))"
  using assms
proof (induction refs arbitrary: rs h props)
  case Nil
  then show ?case by simp
next
  case (Cons r refs)
  from Cons.prems(1) obtain row rs' where
    r: "row_at h0 r = Some row" "those (map (row_at h0) refs) = Some rs'" "rs = row # rs'"
    unfolding those_Cons by blast
  have rh: "row_at h r = Some row"
    using r(1) Cons.prems(2) by (rule row_at_prefix)
  have acc: "acc < length h"
    using Cons.prems(4) by (auto simp: at_index_def split: if_splits)
  show ?case
  proof (cases "at_index row c")
    case None
    with rh Cons.prems r(3) show ?thesis by auto
  next
    case (Some cell)
    show ?thesis
    proof (cases cell)
      case (Num n)
      with Some rh Cons.prems r(3) show ?thesis by auto
    next
      case (Str dateStr)
      let ?h = "h[acc := PlainObj (bump rt props (take 7 dateStr))]"
      have 1: "take (length h0) ?h = h0"
        using Cons.prems(2,3) by simp
      have 2: "at_index ?h acc = Some (PlainObj (bump rt props (take 7 dateStr)))"
        using acc by (rule at_index_update_same)
      from Cons.IH [OF r(2) 1 Cons.prems(3) 2] obtain h' where
        h': "take (length h0) h' = h0"
          "case aggregate_months rt c (bump rt props (take 7 dateStr)) rs' of
             Inl e \<Rightarrow> reduce_months rt c acc refs ?h = (Inl e, h')
           | Inr agg \<Rightarrow> reduce_months rt c acc refs ?h = (Inr (), h')
                         \<and> at_index h' acc = Some (PlainObj agg)"
        by blast
      have e1: "reduce_months rt c acc (r # refs) h = reduce_months rt c acc refs ?h"
        using rh Cons.prems(4) Some Str by simp
      have e2: "aggregate_months rt c props rs
          = aggregate_months rt c (bump rt props (take 7 dateStr)) rs'"
        using r(3) Some Str by simp
      show ?thesis unfolding e1 e2 using h' by blast
    qed
  qed
qed

lemma reduce_labels_run:
  assumes "those (map (row_at h0) refs) = Some rs"
    and "take (length h0) h = h0" and "length h0 \<le> acc"
    and "at_index h acc = Some (PlainObj props)"
  shows "\<exists>h'. take (length h0) h' = h0
      \<and> reduce_labels rt c acc refs h = (Inr (), h')
      \<and> at_index h' acc =
          Some (PlainObj (foldl (\<lambda>acc row. bump rt acc (String_js rt (at_index row c))) props rs))"
  using assms
proof (induction refs arbitrary: rs h props)
  case Nil
  then show ?case by simp
next
  case (Cons r refs)
  from Cons.prems(1) obtain row rs' where
    r: "row_at h0 r = Some row" "those (map (row_at h0) refs) = Some rs'" "rs = row # rs'"
    unfolding those_Cons by blast
  have rh: "row_at h r = Some row"
    using r(1) Cons.prems(2) by (rule row_at_prefix)
  have acc: "acc < length h"
    using Cons.prems(4) by (auto simp: at_index_def split: if_splits)
  let ?p = "bump rt props (String_js rt (at_index row c))"
  let ?h = "h[acc := PlainObj ?p]"
  have 1: "take (length h0) ?h = h0"
    using Cons.prems(2,3) by simp
  have 2: "at_index ?h acc = Some (PlainObj ?p)"
    using acc by (rule at_index_update_same)
  from Cons.IH [OF r(2) 1 Cons.prems(3) 2] obtain h' where
    h': "take (length h0) h' = h0" "reduce_labels rt c acc refs ?h = (Inr (), h')"
      "at_index h' acc =
          Some (PlainObj (foldl (\<lambda>acc row. bump rt acc (String_js rt (at_index row c))) ?p rs'))"
    by blast
  have e1: "reduce_labels rt c acc (r # refs) h = reduce_labels rt c acc refs ?h"
    using rh Cons.prems(4) by simp
  have e2: "foldl (\<lambda>acc row. bump rt acc (String_js rt (at_index row c))) props rs
      = foldl (\<lambda>acc row. bump rt acc (String_js rt (at_index row c))) ?p rs'"
    using r(3) by simp
  show ?case unfolding e1 e2 using h' by blast
qed

lemma entries_to_points_run:
  assumes "at_index h o_ref = Some (PlainObj props)"
  shows "entries_to_points h o_ref =
      (Inr (Suc (length h)),
       h @ [EntriesArr (Object_entries props), PointsArr (to_points (Object_entries props))])"
  using assms by (simp add: entries_to_points_def alloc_def at_index_def)

lemma take_append_two: "take (length h0) h = h0 \<Longrightarrow> take (length h0) (h @ xs) = h0"
  by (metis append_eq_conv_conj append_take_drop_id append.assoc)

lemma at_index_append_new: "at_index (h @ [ob]) (length h) = Some ob"
  by (simp add: at_index_def)

lemma at_index_append_second: "at_index (h @ [ob1, ob2]) (Suc (length h)) = Some ob2"
  by (simp add: at_index_def nth_append)

lemma outcome_points:
  "at_index h p = Some (PointsArr ps) \<Longrightarrow> outcome (Inr p, h) = Inr ps"
  by (simp add: outcome_def)

lemma empty_array_run:
  "take (length h) (snd (case alloc h (PointsArr []) of (fresh, h1) \<Rightarrow> (Inr fresh, h1))) = h
   \<and> outcome (case alloc h (PointsArr []) of (fresh, h1) \<Rightarrow> (Inr fresh, h1)) = Inr []"
  by (simp add: alloc_def outcome_def at_index_def)

lemma months_run:
  assumes "those (map (row_at h) refs) = Some rs"
  shows "take (length h)
           (snd (case alloc h (PlainObj []) of
                   (acc, h1) \<Rightarrow>
                     (case reduce_months rt c acc refs h1 of
                        (Inl e, h2) \<Rightarrow> (Inl e, h2)
                      | (Inr u, h2) \<Rightarrow>
                          (case entries_to_points h2 acc of
                             (Inl e, h3) \<Rightarrow> (Inl e, h3)
                           | (Inr points, h3) \<Rightarrow> sort_in_place cmp h3 points)))) = h
       \<and> outcome (case alloc h (PlainObj []) of
                   (acc, h1) \<Rightarrow>
                     (case reduce_months rt c acc refs h1 of
                        (Inl e, h2) \<Rightarrow> (Inl e, h2)
                      | (Inr u, h2) \<Rightarrow>
                          (case entries_to_points h2 acc of
                             (Inl e, h3) \<Rightarrow> (Inl e, h3)
                           | (Inr points, h3) \<Rightarrow> sort_in_place cmp h3 points)))
         = (case aggregate_months rt c [] rs of
              Inl e \<Rightarrow> Inl e
            | Inr aggregation \<Rightarrow> Inr (js_sort cmp (to_points (Object_entries aggregation))))"
proof -
  let ?h1 = "h @ [PlainObj []]"
  have a: "alloc h (PlainObj []) = (length h, ?h1)" by (simp add: alloc_def)
  have 1: "take (length h) ?h1 = h" by simp
  have 2: "at_index ?h1 (length h) = Some (PlainObj [])" by (rule at_index_append_new)
  from reduce_months_run [OF assms 1 order_refl 2, of rt c] obtain h2 where
    h2: "take (length h) h2 = h"
      "case aggregate_months rt c [] rs of
         Inl e \<Rightarrow> reduce_months rt c (length h) refs ?h1 = (Inl e, h2)
       | Inr agg \<Rightarrow> reduce_months rt c (length h) refs ?h1 = (Inr (), h2)
                     \<and> at_index h2 (length h) = Some (PlainObj agg)"
    by blast
  show ?thesis
  proof (cases "aggregate_months rt c [] rs")
    case (Inl e)
    with h2 have "reduce_months rt c (length h) refs ?h1 = (Inl e, h2)" by simp
    with a h2(1) Inl show ?thesis by (simp add: outcome_def)
  next
    case (Inr agg)
    with h2 have r: "reduce_months rt c (length h) refs ?h1 = (Inr (), h2)"
      and o: "at_index h2 (length h) = Some (PlainObj agg)" by simp_all
    let ?E = "EntriesArr (Object_entries agg)"
    let ?P = "PointsArr (to_points (Object_entries agg))"
    let ?h3 = "h2 @ [?E, ?P]"
    let ?p = "Suc (length h2)"
    let ?h4 = "?h3[?p := PointsArr (js_sort cmp (to_points (Object_entries agg)))]"
    have e: "entries_to_points h2 (length h) = (Inr ?p, ?h3)"
      using o by (rule entries_to_points_run)
    have p: "at_index ?h3 ?p = Some ?P" by (rule at_index_append_second)
    then have s: "sort_in_place cmp ?h3 ?p = (Inr ?p, ?h4)"
      by (simp add: sort_in_place_def)
    have len: "length h \<le> length h2"
      using h2(1) by (metis length_take min.cobounded1)
    have "take (length h) ?h3 = h"
      using h2(1) by (rule take_append_two)
    then have f: "take (length h) ?h4 = h"
      using len by simp
    have "at_index ?h4 ?p = Some (PointsArr (js_sort cmp (to_points (Object_entries agg))))"
      by (rule at_index_update_same) simp
    then have "outcome (Inr ?p, ?h4) = Inr (js_sort cmp (to_points (Object_entries agg)))"
      by (rule outcome_points)
    with a r e s f Inr show ?thesis by simp
  qed
qed

lemma labels_run:
  assumes "those (map (row_at h) refs) = Some rs"
  shows "take (length h)
           (snd (case alloc h (PlainObj []) of
                   (acc, h1) \<Rightarrow>
                     (case reduce_labels rt c acc refs h1 of
                        (Inl e, h2) \<Rightarrow> (Inl e, h2)
                      | (Inr u, h2) \<Rightarrow>
                          (case at_index h2 acc of
                             Some (PlainObj props) \<Rightarrow>
                               if 1 < length (Object_keys props)
                               then entries_to_points h2 acc
                               else (case alloc h2 (PointsArr []) of
                                       (fresh, h3) \<Rightarrow> (Inr fresh, h3))
                           | _ \<Rightarrow> (Inl TypeError, h2))))) = h
       \<and> outcome (case alloc h (PlainObj []) of
                   (acc, h1) \<Rightarrow>
                     (case reduce_labels rt c acc refs h1 of
                        (Inl e, h2) \<Rightarrow> (Inl e, h2)
                      | (Inr u, h2) \<Rightarrow>
                          (case at_index h2 acc of
                             Some (PlainObj props) \<Rightarrow>
                               if 1 < length (Object_keys props)
                               then entries_to_points h2 acc
                               else (case alloc h2 (PointsArr []) of
                                       (fresh, h3) \<Rightarrow> (Inr fresh, h3))
                           | _ \<Rightarrow> (Inl TypeError, h2))))
         = (let aggregation = aggregate_labels rt c rs in
            if 1 < length (Object_keys aggregation)
            then Inr (to_points (Object_entries aggregation)) else Inr [])"
proof -
  let ?h1 = "h @ [PlainObj []]"
  let ?agg = "aggregate_labels rt c rs"
  have a: "alloc h (PlainObj []) = (length h, ?h1)" by (simp add: alloc_def)
  have 1: "take (length h) ?h1 = h" by simp
  have 2: "at_index ?h1 (length h) = Some (PlainObj [])" by (rule at_index_append_new)
  from reduce_labels_run [OF assms 1 order_refl 2, of rt c] obtain h2 where
    h2: "take (length h) h2 = h" "reduce_labels rt c (length h) refs ?h1 = (Inr (), h2)"
      "at_index h2 (length h) = Some (PlainObj ?agg)"
    by (auto simp: aggregate_labels_def)
  show ?thesis
  proof (cases "1 < length (Object_keys ?agg)")
    case True
    let ?E = "EntriesArr (Object_entries ?agg)"
    let ?P = "PointsArr (to_points (Object_entries ?agg))"
    let ?h3 = "h2 @ [?E, ?P]"
    have e: "entries_to_points h2 (length h) = (Inr (Suc (length h2)), ?h3)"
      using h2(3) by (rule entries_to_points_run)
    have f: "take (length h) ?h3 = h"
      using h2(1) by (rule take_append_two)
    have "at_index ?h3 (Suc (length h2)) = Some ?P" by (rule at_index_append_second)
    then have "outcome (Inr (Suc (length h2)), ?h3) = Inr (to_points (Object_entries ?agg))"
      by (rule outcome_points)
    with a h2 e f True show ?thesis by (simp add: Let_def)
  next
    case False
    have f: "take (length h) (h2 @ [PointsArr []]) = h"
      using h2(1) by (rule take_append_two)
    have "at_index (h2 @ [PointsArr []]) (length h2) = Some (PointsArr [])"
      by (rule at_index_append_new)
    then have "outcome (Inr (length h2), h2 @ [PointsArr []]) = Inr []"
      by (rule outcome_points)
    with a h2 f False show ?thesis by (simp add: Let_def alloc_def)
  qed
qed

lemma chartData_heap_run:
  assumes "query_result_at h a = Some d"
  shows "take (length h) (snd (chartData_heap rt h a)) = h
       \<and> outcome (chartData_heap rt h a) = chartData rt d"
proof -
  from assms obtain cols rowsRef q refs rs where
    f: "at_index h a = Some (DataObj cols rowsRef q)" "at_index h rowsRef = Some (RowsArr refs)"
      "those (map (row_at h) refs) = Some rs" "d = \<lparr>columns = cols, rows = rs, query = q\<rparr>"
    by (auto simp: query_result_at_def split: option.splits obj.splits)
  show ?thesis
  proof (cases refs)
    case Nil
    with f(3) have "rs = []" by simp
    with f Nil empty_array_run [of h] show ?thesis
      by (simp add: chartData_heap_def chartData_def)
  next
    case (Cons first others)
    from f(3) have "those (map (row_at h) (first # others)) = Some rs"
      unfolding Cons .
    then obtain firstRow rest where
      r: "row_at h first = Some firstRow" "rs = firstRow # rest"
      unfolding those_Cons by blast
    show ?thesis
    proof (cases "findIndex (\<lambda>cell index. is_number cell) firstRow")
      case (Some v)
      let ?pts = "map (\<lambda>row. \<lparr>name = String_js rt (at_index row (stringColumnIndex firstRow v)),
                               val = Num (Number_js rt (at_index row v))\<rparr>) rs"
      have "chartData_heap rt h a = (Inr (length h), h @ [PointsArr ?pts])"
        using f(1,2,3) Cons r(1) Some by (auto simp: chartData_heap_def alloc_def)
      moreover have "chartData rt d = Inr ?pts"
        using f(4) r(2) Some by (simp add: chartData_def)
      moreover have "outcome (Inr (length h), h @ [PointsArr ?pts]) = Inr ?pts"
        by (rule outcome_points) (rule at_index_append_new)
      ultimately show ?thesis by simp
    next
      case None
      note nonum = None
      show ?thesis
      proof (cases "findIndex (\<lambda>cell index. is_date_string cell) firstRow")
        case (Some c)
        have "chartData_heap rt h a =
            (case alloc h (PlainObj []) of
               (acc, h1) \<Rightarrow>
                 (case reduce_months rt c acc refs h1 of
                    (Inl e, h2) \<Rightarrow> (Inl e, h2)
                  | (Inr u, h2) \<Rightarrow>
                      (case entries_to_points h2 acc of
                         (Inl e, h3) \<Rightarrow> (Inl e, h3)
                       | (Inr points, h3) \<Rightarrow>
                           sort_in_place (\<lambda>a b. localeCompare rt (name a) (name b)) h3 points)))"
          using f(1,2) Cons r(1) nonum Some by (simp add: chartData_heap_def)
        moreover have "chartData rt d =
            (case aggregate_months rt c [] rs of
               Inl e \<Rightarrow> Inl e
             | Inr aggregation \<Rightarrow>
                 Inr (js_sort (\<lambda>a b. localeCompare rt (name a) (name b))
                        (to_points (Object_entries aggregation))))"
          using f(4) r(2) nonum Some by (simp add: chartData_def)
        ultimately show ?thesis
          using months_run [OF f(3), where rt = rt and c = c
              and cmp = "\<lambda>a b. localeCompare rt (name a) (name b)"]
          by simp
      next
        case None
        note nodate = None
        show ?thesis
        proof (cases "findIndex (\<lambda>cell index. is_string cell) firstRow")
          case (Some l)
          have "chartData_heap rt h a =
              (case alloc h (PlainObj []) of
                 (acc, h1) \<Rightarrow>
                   (case reduce_labels rt l acc refs h1 of
                      (Inl e, h2) \<Rightarrow> (Inl e, h2)
                    | (Inr u, h2) \<Rightarrow>
                        (case at_index h2 acc of
                           Some (PlainObj props) \<Rightarrow>
                             if 1 < length (Object_keys props)
                             then entries_to_points h2 acc
                             else (case alloc h2 (PointsArr []) of
                                     (fresh, h3) \<Rightarrow> (Inr fresh, h3))
                         | _ \<Rightarrow> (Inl TypeError, h2))))"
            using f(1,2) Cons r(1) nonum nodate Some by (simp add: chartData_heap_def)
          moreover have "chartData rt d =
              (let aggregation = aggregate_labels rt l rs in
               if 1 < length (Object_keys aggregation)
               then Inr (to_points (Object_entries aggregation)) else Inr [])"
            using f(4) r(2) nonum nodate Some by (simp add: chartData_def)
          ultimately show ?thesis
            using labels_run [OF f(3), where rt = rt and c = l] by simp
        next
          case None
          have "chartData_heap rt h a =
              (case alloc h (PointsArr []) of (fresh, h1) \<Rightarrow> (Inr fresh, h1))"
            using f(1,2) Cons r(1) nonum nodate None by (simp add: chartData_heap_def)
          moreover have "chartData rt d = Inr []"
            using f(4) r(2) nonum nodate None by (simp add: chartData_def)
          ultimately show ?thesis
            using empty_array_run [of h] by simp
        qed
      qed
    qed
  qed
qed

text \<open>
  C7: \<open>chartData\<close> is a function of the \<open>QueryResult\<close> and has no effect on it. Run in a
  store where the reference \<open>a\<close> denotes the result \<open>d\<close>, it leaves every object of that
  store as it was (it only adds objects), so \<open>a\<close> still denotes \<open>d\<close>; what it hands back is
  \<open>chartData rt d\<close>, which depends on \<open>d\<close> and the runtime alone; and a second run, in the
  store the first run left behind, hands back the same.
\<close>

theorem chartData_pure:
  assumes "query_result_at h a = Some d"
  shows "take (length h) (snd (chartData_heap rt h a)) = h
       \<and> query_result_at (snd (chartData_heap rt h a)) a = Some d
       \<and> outcome (chartData_heap rt h a) = chartData rt d
       \<and> outcome (chartData_heap rt (snd (chartData_heap rt h a)) a)
           = outcome (chartData_heap rt h a)"
proof -
  let ?h' = "snd (chartData_heap rt h a)"
  from chartData_heap_run [OF assms, of rt]
  have 1: "take (length h) ?h' = h" and 2: "outcome (chartData_heap rt h a) = chartData rt d"
    by simp_all
  have 3: "query_result_at ?h' a = Some d"
    using assms 1 by (rule query_result_at_prefix)
  from chartData_heap_run [OF 3, of rt]
  have "outcome (chartData_heap rt ?h' a) = chartData rt d" by simp
  with 1 2 3 show ?thesis by simp
qed

text \<open>Two runs on the example store.\<close>

theorem chartData_pure_witness:
  "query_result_at example_heap 4 =
     Some \<lparr>columns = [''Arresting Officer'', ''Arrest Date'', ''FIR Details''],
           rows = [[Str ''S. Kumar'', Str ''2025-06-10'', Str ''Chain snatching incident''],
                   [Str ''S. Kumar'', Str ''2025-05-15'', Str ''Theft of motorcycle''],
                   [Str ''S. Kumar'', Str ''2025-05-22'', Str ''Shop burglary on Main St.'']],
           query = ''SELECT 1''\<rparr>
   \<and> take (length example_heap) (snd (chartData_heap example_runtime example_heap 4))
       = example_heap
   \<and> outcome (chartData_heap example_runtime example_heap 4)
       = Inr [\<lparr>name = ''2025-05'', val = Num (Finite 2)\<rparr>,
              \<lparr>name = ''2025-06'', val = Num (Finite 1)\<rparr>]
   \<and> outcome (chartData_heap example_runtime
                 (snd (chartData_heap example_runtime example_heap 4)) 4)
       = Inr [\<lparr>name = ''2025-05'', val = Num (Finite 2)\<rparr>,
              \<lparr>name = ''2025-06'', val = Num (Finite 1)\<rparr>]"
proof -
  let ?d = "\<lparr>columns = [''Arresting Officer'', ''Arrest Date'', ''FIR Details''],
           rows = [[Str ''S. Kumar'', Str ''2025-06-10'', Str ''Chain snatching incident''],
                   [Str ''S. Kumar'', Str ''2025-05-15'', Str ''Theft of motorcycle''],
                   [Str ''S. Kumar'', Str ''2025-05-22'', Str ''Shop burglary on Main St.'']],
           query = ''SELECT 1''\<rparr>"
  have q: "query_result_at example_heap 4 = Some ?d"
    by code_simp
  have e: "chartData example_runtime ?d
      = Inr [\<lparr>name = ''2025-05'', val = Num (Finite 2)\<rparr>,
             \<lparr>name = ''2025-06'', val = Num (Finite 1)\<rparr>]"
    by code_simp
  from chartData_pure [OF q, of example_runtime] q e show ?thesis by simp
qed

end
